theory Spec2Isabelle
  imports Complex_Main
begin

section \<open>Data model\<close>

text \<open>
  A cell of the row buffer is a string, a number or null
  (\<^verbatim>\<open>(string | number | null)[][]\<close>). Reading a row or a column that does not
  exist (\<^verbatim>\<open>row[idx]\<close>, \<^verbatim>\<open>data[r]?.[c]\<close>) gives JavaScript's \<^verbatim>\<open>undefined\<close>, which
  is a value of its own here. Numbers are the reals (no NaN comes out of JSON), so the
  strict comparison \<^verbatim>\<open>!==\<close> of two cells is inequality of the datatype.
\<close>

datatype cell = Str string | Num real | Null | Undefined

text \<open>A loaded range \<^verbatim>\<open>{ start: number; end: number }\<close> of server offsets.\<close>

record range =
  start :: int
  end' :: int

section \<open>RangeTracker helpers of the store\<close>

text \<open>
  \<^verbatim>\<open>isRangeLoaded(ranges, offset, limit)\<close>: some tracked range contains
  \<^verbatim>\<open>[offset, offset + limit)\<close>.
\<close>

definition isRangeLoaded :: "range list \<Rightarrow> int \<Rightarrow> int \<Rightarrow> bool" where
  "isRangeLoaded ranges offset limit =
     (let requestEnd = offset + limit
      in list_ex (\<lambda>r. start r \<le> offset \<and> end' r \<ge> requestEnd) ranges)"

text \<open>
  The body of the \<^verbatim>\<open>for\<close> loop of \<^verbatim>\<open>mergeRanges\<close>: \<^verbatim>\<open>last\<close> is the last element
  of \<^verbatim>\<open>merged\<close>; it is extended in place, or \<^verbatim>\<open>current\<close> is pushed.
\<close>

definition merge_step :: "range list \<Rightarrow> range \<Rightarrow> range list" where
  "merge_step merged current =
     (let l = last merged
      in if start current \<le> end' l + 1
         then butlast merged @ [l\<lparr>end' := max (end' l) (end' current)\<rparr>]
         else merged @ [current])"

text \<open>
  \<^verbatim>\<open>mergeRanges(ranges)\<close>: a stable sort by \<^verbatim>\<open>start\<close>, then the loop over
  \<^verbatim>\<open>sorted[1..]\<close> starting from \<^verbatim>\<open>merged = [sorted[0]]\<close>.
\<close>

definition mergeRanges :: "range list \<Rightarrow> range list" where
  "mergeRanges ranges =
     (if ranges = [] then []
      else let sorted = sort_key start ranges
           in foldl merge_step [hd sorted] (tl sorted))"

text \<open>The offsets covered by a set of half-open ranges.\<close>

definition covered :: "range list \<Rightarrow> int \<Rightarrow> bool" where
  "covered ranges i = list_ex (\<lambda>r. start r \<le> i \<and> i < end' r) ranges"

section \<open>The data window store\<close>

definition BATCH_SIZE :: int where
  "BATCH_SIZE = 2000"

definition MAX_CACHED_ROWS :: nat where
  "MAX_CACHED_ROWS = 10000"

datatype Filter = Filter (column: string) (operator: string) (filter_value: "cell list")

datatype SortConfig = SortConfig (sort_column: string) (direction: string)

datatype DateRange = DateRange (range_start: string) (range_end: string)

datatype ComparisonConfig =
  ComparisonConfig (currentPeriod: DateRange) (comparisonPeriod: DateRange)

datatype DimensionColumn =
  DimensionColumn (dimension_name: string) (dimension_label: string) (dimension_type: string)

datatype MetricColumn =
  MetricColumn (metric_name: string) (metric_label: string) (metric_type: string)
    (aggregation: string)

record TableMetadata =
  tableName :: string
  dimensions :: "DimensionColumn list"
  metrics :: "MetricColumn list"

record QueryRequest =
  req_dimensions :: "string list"
  req_metrics :: "string list"
  req_filters :: "Filter list"
  req_sort :: "SortConfig list"
  req_offset :: int
  req_limit :: int
  req_search :: "string option"
  req_comparison :: "ComparisonConfig option"

record ColumnarQueryResponse =
  res_columns :: "string list"
  res_columnTypes :: "string list"
  res_data :: "cell list list"
  res_totalRows :: int
  res_queryTimeMs :: real
  res_cached :: bool

text \<open>
  \<^verbatim>\<open>PrefetchState\<close>. An entry of \<^verbatim>\<open>columnTypes\<close> is \<open>None\<close> where the reducer reads
  \<^verbatim>\<open>allColumnTypes[idx]\<close> past the end of that array (\<^verbatim>\<open>undefined\<close>).
\<close>

record PrefetchState =
  selectedDimensions :: "string list"
  selectedMetrics :: "string list"
  filters :: "Filter list"
  sortConfig :: "SortConfig list"
  searchText :: string
  comparison :: "ComparisonConfig option"
  isLoading :: bool
  error :: "string option"
  metadata :: "TableMetadata option"
  columns :: "string list"
  columnTypes :: "string option list"
  data :: "cell list list"
  totalRows :: int
  cached :: bool
  queryTimeMs :: real
  allColumns :: "string list"
  allColumnTypes :: "string list"
  allData :: "cell list list"
  visibleColumns :: "string list"
  visibleColumnTypes :: "string list"
  loadedRanges :: "range list"
  isPrefetching :: bool
  lastScrollPosition :: real
  currentQueryId :: int
  needsDataRefresh :: bool

definition initialState :: PrefetchState where
  "initialState =
     \<lparr>selectedDimensions = [''master_brand_id''],
      selectedMetrics = [''ads_spend'', ''ads_sale'', ''gross_sale''],
      filters = [],
      sortConfig = [SortConfig ''ads_spend'' ''desc''],
      searchText = [],
      comparison = None,
      isLoading = False,
      error = None,
      metadata = None,
      columns = [],
      columnTypes = [],
      data = [],
      totalRows = 0,
      cached = False,
      queryTimeMs = 0,
      allColumns = [],
      allColumnTypes = [],
      allData = [],
      visibleColumns = [],
      visibleColumnTypes = [],
      loadedRanges = [],
      isPrefetching = False,
      lastScrollPosition = 0,
      currentQueryId = 0,
      needsDataRefresh = True\<rparr>"

subsection \<open>The visible projection\<close>

text \<open>\<^verbatim>\<open>Array.prototype.indexOf\<close>: the first index of the element, or \<open>-1\<close>.\<close>

fun indexOf :: "'a list \<Rightarrow> 'a \<Rightarrow> int" where
  "indexOf [] x = - 1"
| "indexOf (y # ys) x =
     (if y = x then 0
      else (let i = indexOf ys x in if i = - 1 then - 1 else i + 1))"

text \<open>\<^verbatim>\<open>row[idx]\<close> on a row of cells: \<^verbatim>\<open>undefined\<close> out of range.\<close>

definition cell_at :: "cell list \<Rightarrow> int \<Rightarrow> cell" where
  "cell_at row idx = (if 0 \<le> idx \<and> idx < int (length row) then row ! nat idx else Undefined)"

text \<open>\<^verbatim>\<open>allColumnTypes[idx]\<close>: \<open>None\<close> (\<^verbatim>\<open>undefined\<close>) out of range.\<close>

definition type_at :: "string list \<Rightarrow> int \<Rightarrow> string option" where
  "type_at tys idx = (if 0 \<le> idx \<and> idx < int (length tys) then Some (tys ! nat idx) else None)"

text \<open>
  \<^verbatim>\<open>filterVisibleData\<close>. Every index left in \<^verbatim>\<open>columnIndices\<close> is the result of an
  \<^verbatim>\<open>indexOf\<close> that is not \<open>-1\<close>, so \<^verbatim>\<open>allColumns[idx]\<close> is always a read in range
  (lemma \<open>columnIndices_in_range\<close> below).
\<close>

definition columnIndices :: "string list \<Rightarrow> string list \<Rightarrow> string list \<Rightarrow> int list" where
  "columnIndices allCols dims mets =
     filter (\<lambda>idx. idx \<noteq> - 1) (map (\<lambda>col. indexOf allCols col) (dims @ mets))"

record VisibleData =
  fvisibleColumns :: "string list"
  fvisibleData :: "cell list list"
  fcolumnIndices :: "int list"

definition filterVisibleData ::
  "string list \<Rightarrow> cell list list \<Rightarrow> string list \<Rightarrow> string list \<Rightarrow> VisibleData" where
  "filterVisibleData allCols rows dims mets =
     (let idxs = columnIndices allCols dims mets;
          visibleData = map (\<lambda>row. map (\<lambda>idx. cell_at row idx) idxs) rows
      in \<lparr>fvisibleColumns = map (\<lambda>idx. allCols ! nat idx) idxs,
          fvisibleData = visibleData,
          fcolumnIndices = idxs\<rparr>)"

text \<open>
  The three assignments every reducer makes after \<^verbatim>\<open>filterVisibleData\<close>:
  \<^verbatim>\<open>state.columns\<close>, \<^verbatim>\<open>state.data\<close> and \<^verbatim>\<open>state.columnTypes\<close>.
\<close>

definition visibleColumnTypesOf ::
  "string list \<Rightarrow> string list \<Rightarrow> string list \<Rightarrow> string option list" where
  "visibleColumnTypesOf allCols allTys visCols =
     map (\<lambda>col. let idx = indexOf allCols col
                in if idx \<ge> 0 then type_at allTys idx else Some ''varchar'') visCols"

definition refilter :: "PrefetchState \<Rightarrow> PrefetchState" where
  "refilter st =
     (let f = filterVisibleData (allColumns st) (allData st) (selectedDimensions st)
                (selectedMetrics st)
      in st\<lparr>columns := fvisibleColumns f,
            data := fvisibleData f,
            columnTypes := visibleColumnTypesOf (allColumns st) (allColumnTypes st)
                             (fvisibleColumns f)\<rparr>)"

subsection \<open>Metric selection reducers\<close>

definition setSelectedMetrics :: "PrefetchState \<Rightarrow> string list \<Rightarrow> PrefetchState" where
  "setSelectedMetrics st payload =
     (let st1 = st\<lparr>selectedMetrics := payload\<rparr>
      in if length (allData st1) > 0 then refilter st1 else st1)"

text \<open>\<^verbatim>\<open>push\<close> when the metric is absent, \<^verbatim>\<open>splice(index, 1)\<close> at its first index otherwise.\<close>

definition toggleMetric :: "PrefetchState \<Rightarrow> string \<Rightarrow> PrefetchState" where
  "toggleMetric st payload =
     (let index = indexOf (selectedMetrics st) payload;
          st1 = (if index = - 1
                 then st\<lparr>selectedMetrics := selectedMetrics st @ [payload]\<rparr>
                 else st\<lparr>selectedMetrics :=
                          take (nat index) (selectedMetrics st)
                          @ drop (nat index + 1) (selectedMetrics st)\<rparr>)
      in if length (allData st1) > 0 then refilter st1 else st1)"

subsection \<open>Initial fetch reducers\<close>

definition fetchInitialData_pending :: "PrefetchState \<Rightarrow> PrefetchState" where
  "fetchInitialData_pending st =
     st\<lparr>isLoading := True, error := None, currentQueryId := currentQueryId st + 1\<rparr>"

definition fetchInitialData_fulfilled ::
  "PrefetchState \<Rightarrow> ColumnarQueryResponse \<Rightarrow> PrefetchState" where
  "fetchInitialData_fulfilled st payload =
     (let st1 = st\<lparr>isLoading := False,
                    needsDataRefresh := False,
                    allColumns := res_columns payload,
                    allColumnTypes := res_columnTypes payload,
                    allData := res_data payload,
                    totalRows := res_totalRows payload,
                    queryTimeMs := res_queryTimeMs payload,
                    cached := res_cached payload\<rparr>;
          st2 = refilter st1
      in st2\<lparr>loadedRanges := [\<lparr>start = 0, end' = int (length (res_data payload))\<rparr>]\<rparr>)"

text \<open>
  The argument of a rejected reducer is \<^verbatim>\<open>action.error.message\<close>, which may be
  \<^verbatim>\<open>undefined\<close> (\<open>None\<close>).
\<close>

definition fetchInitialData_rejected :: "PrefetchState \<Rightarrow> string option \<Rightarrow> PrefetchState" where
  "fetchInitialData_rejected st errorMsg =
     (let st1 = st\<lparr>isLoading := False, needsDataRefresh := False\<rparr>
      in if errorMsg \<noteq> Some ''Request cancelled''
         then st1\<lparr>error :=
                    Some (case errorMsg of Some m \<Rightarrow> m | None \<Rightarrow> ''Failed to fetch data'')\<rparr>
         else st1)"

subsection \<open>The API service: abort controllers\<close>

text \<open>
  The module state of the API service: the three controller variables, each \<open>None\<close>
  (\<^verbatim>\<open>null\<close>) or the controller it holds. A controller is identified by the number of the
  \<^verbatim>\<open>new AbortController()\<close> that made it; \<open>aborted\<close> lists the controllers on which
  \<^verbatim>\<open>abort()\<close> has been called.
\<close>

record ServiceState =
  initialQueryController :: "nat option"
  prefetchController :: "nat option"
  searchController :: "nat option"
  aborted :: "nat list"
  nextController :: nat

definition initialService :: ServiceState where
  "initialService =
     \<lparr>initialQueryController = None, prefetchController = None, searchController = None,
      aborted = [], nextController = 0\<rparr>"

text \<open>\<^verbatim>\<open>if (controller) { controller.abort(); }\<close>\<close>

definition abort :: "nat option \<Rightarrow> ServiceState \<Rightarrow> ServiceState" where
  "abort controller s =
     (case controller of None \<Rightarrow> s | Some c \<Rightarrow> s\<lparr>aborted := c # aborted s\<rparr>)"

text \<open>
  \<^verbatim>\<open>queryRaw\<close>, \<^verbatim>\<open>fetchAllData\<close> and \<^verbatim>\<open>search\<close> up to the point where the request is
  posted: the new module state, and the controller whose signal the request carries.
\<close>

definition queryRaw_start :: "ServiceState \<Rightarrow> bool \<Rightarrow> ServiceState \<times> nat" where
  "queryRaw_start s isPrefetch =
     (if isPrefetch
      then (let s1 = abort (prefetchController s) s;
                c = nextController s1
            in (s1\<lparr>prefetchController := Some c, nextController := c + 1\<rparr>, c))
      else (let s1 = abort (initialQueryController s) s;
                c = nextController s1
            in (s1\<lparr>initialQueryController := Some c, nextController := c + 1\<rparr>, c)))"

definition fetchAllData_start :: "ServiceState \<Rightarrow> ServiceState \<times> nat" where
  "fetchAllData_start s =
     (let s1 = abort (initialQueryController s) s;
          c = nextController s1
      in (s1\<lparr>initialQueryController := Some c, nextController := c + 1\<rparr>, c))"

definition search_start :: "ServiceState \<Rightarrow> ServiceState \<times> nat" where
  "search_start s =
     (let s1 = abort (searchController s) s;
          c = nextController s1
      in (s1\<lparr>searchController := Some c, nextController := c + 1\<rparr>, c))"

text \<open>
  How the awaited post of \<^verbatim>\<open>queryRaw\<close> settles: axios rejects a request whose signal is
  aborted, and the \<^verbatim>\<open>catch\<close> turns that into \<^verbatim>\<open>Error('Request cancelled')\<close>; otherwise
  the transport's outcome (a response, or a failure with its message) passes through.
\<close>

definition queryRaw_settle ::
  "ServiceState \<Rightarrow> nat \<Rightarrow> string option + ColumnarQueryResponse \<Rightarrow>
   string option + ColumnarQueryResponse" where
  "queryRaw_settle s c outcome =
     (if c \<in> set (aborted s) then Inl (Some ''Request cancelled'') else outcome)"

subsection \<open>Range fetch: thunk and reducers\<close>

record FetchRangeParams =
  offset :: int
  limit :: "int option"
  isPrefetch :: "bool option"

record FetchRangePayload = ColumnarQueryResponse +
  pay_offset :: int
  pay_isPrefetch :: bool

definition fetchDataRange_pending :: "PrefetchState \<Rightarrow> FetchRangeParams \<Rightarrow> PrefetchState" where
  "fetchDataRange_pending st arg =
     (if isPrefetch arg = Some True then st\<lparr>isPrefetching := True\<rparr> else st\<lparr>isLoading := True\<rparr>)"

text \<open>
  The part of \<^verbatim>\<open>fetchDataRange.fulfilled\<close> from the flag reset to the update of
  \<^verbatim>\<open>totalRows\<close>: append, re-filter, push the new range and merge.
\<close>

definition fulfilled_append :: "PrefetchState \<Rightarrow> FetchRangePayload \<Rightarrow> PrefetchState" where
  "fulfilled_append st payload =
     (let st1 = (if pay_isPrefetch payload then st\<lparr>isPrefetching := False\<rparr>
                 else st\<lparr>isLoading := False\<rparr>);
          newData = res_data payload;
          off = pay_offset payload;
          st2 = refilter (st1\<lparr>allData := allData st1 @ newData\<rparr>);
          pushed = loadedRanges st2 @ [\<lparr>start = off, end' = off + int (length newData)\<rparr>];
          st3 = st2\<lparr>loadedRanges := mergeRanges pushed\<rparr>
      in st3\<lparr>totalRows := res_totalRows payload\<rparr>)"

text \<open>The eviction block of \<^verbatim>\<open>fetchDataRange.fulfilled\<close>.\<close>

definition shiftRanges :: "int \<Rightarrow> range list \<Rightarrow> range list" where
  "shiftRanges excessRows ranges =
     filter (\<lambda>r. end' r > start r)
       (map (\<lambda>r. \<lparr>start = max 0 (start r - excessRows), end' = max 0 (end' r - excessRows)\<rparr>)
          ranges)"

definition evict :: "PrefetchState \<Rightarrow> PrefetchState" where
  "evict st =
     (if length (allData st) > MAX_CACHED_ROWS
      then (let excessRows = length (allData st) - MAX_CACHED_ROWS;
                st1 = st\<lparr>allData := drop excessRows (allData st)\<rparr>;
                filtered = filterVisibleData (allColumns st1) (allData st1)
                             (selectedDimensions st1) (selectedMetrics st1);
                st2 = st1\<lparr>data := fvisibleData filtered\<rparr>
            in st2\<lparr>loadedRanges := shiftRanges (int excessRows) (loadedRanges st2)\<rparr>)
      else st)"

text \<open>\<^verbatim>\<open>fetchDataRange.fulfilled\<close>; the payload is \<open>None\<close> when the thunk returned \<^verbatim>\<open>null\<close>.\<close>

definition fetchDataRange_fulfilled ::
  "PrefetchState \<Rightarrow> FetchRangePayload option \<Rightarrow> PrefetchState" where
  "fetchDataRange_fulfilled st payload =
     (case payload of
        None \<Rightarrow> st\<lparr>isPrefetching := False\<rparr>
      | Some p \<Rightarrow> evict (fulfilled_append st p))"

definition fetchDataRange_rejected :: "PrefetchState \<Rightarrow> string option \<Rightarrow> PrefetchState" where
  "fetchDataRange_rejected st errorMsg = st\<lparr>isPrefetching := False, isLoading := False\<rparr>"

text \<open>
  The payload creator of \<^verbatim>\<open>fetchDataRange\<close> up to its first suspension point: it throws,
  returns \<^verbatim>\<open>null\<close>, or awaits \<^verbatim>\<open>dataService.queryRaw(request, params.isPrefetch)\<close>.
\<close>

datatype creator_step =
  Throw string
| ReturnNull
| AwaitQueryRaw QueryRequest bool

definition fetchDataRange_creator :: "PrefetchState \<Rightarrow> FetchRangeParams \<Rightarrow> creator_step" where
  "fetchDataRange_creator st params =
     (case metadata st of
        None \<Rightarrow> Throw ''Metadata not loaded''
      | Some md \<Rightarrow>
          (let lim = (case limit params of Some l \<Rightarrow> l | None \<Rightarrow> BATCH_SIZE)
           in if isRangeLoaded (loadedRanges st) (offset params) lim then ReturnNull
              else AwaitQueryRaw
                     \<lparr>req_dimensions = selectedDimensions st,
                      req_metrics = map metric_name (metrics md),
                      req_filters = filters st,
                      req_sort = sortConfig st,
                      req_offset = offset params,
                      req_limit = lim,
                      req_search = (if searchText st = [] then None else Some (searchText st)),
                      req_comparison = comparison st\<rparr>
                     (isPrefetch params = Some True)))"

text \<open>
  Dispatching the thunk (\<^verbatim>\<open>requestRange\<close> of the specification): the \<^verbatim>\<open>pending\<close>
  reducer runs, then the payload creator on the resulting state, then \<^verbatim>\<open>fulfilled\<close> or
  \<^verbatim>\<open>rejected\<close>. The query-execution collaborator is the parameter \<open>queryRaw\<close>, which
  answers with a response or rejects with an error message; the second component of the
  result lists the calls made to it.
\<close>

definition requestRange ::
  "(QueryRequest \<Rightarrow> bool \<Rightarrow> string option + ColumnarQueryResponse) \<Rightarrow> PrefetchState \<Rightarrow>
   FetchRangeParams \<Rightarrow> PrefetchState \<times> (QueryRequest \<times> bool) list" where
  "requestRange queryRaw st params =
     (let st1 = fetchDataRange_pending st params
      in case fetchDataRange_creator st1 params of
           Throw msg \<Rightarrow> (fetchDataRange_rejected st1 (Some msg), [])
         | ReturnNull \<Rightarrow> (fetchDataRange_fulfilled st1 None, [])
         | AwaitQueryRaw request pf \<Rightarrow>
             (case queryRaw request pf of
                Inl msg \<Rightarrow> (fetchDataRange_rejected st1 msg, [(request, pf)])
              | Inr response \<Rightarrow>
                  (fetchDataRange_fulfilled st1
                     (Some (ColumnarQueryResponse.extend response
                        \<lparr>pay_offset = offset params,
                         pay_isPrefetch =
                           (case isPrefetch params of Some b \<Rightarrow> b | None \<Rightarrow> False)\<rparr>)),
                   [(request, pf)])))"

text \<open>
  The payload creator of \<^verbatim>\<open>fetchDataRange\<close> after its suspension point, followed by the
  reducer the thunk dispatches: \<open>st\<close> is the store state when the request settles.
\<close>

definition fetchDataRange_settled ::
  "ServiceState \<Rightarrow> PrefetchState \<Rightarrow> nat \<Rightarrow> string option + ColumnarQueryResponse \<Rightarrow>
   FetchRangeParams \<Rightarrow> PrefetchState" where
  "fetchDataRange_settled svc st c outcome params =
     (case queryRaw_settle svc c outcome of
        Inl msg \<Rightarrow> fetchDataRange_rejected st msg
      | Inr response \<Rightarrow>
          fetchDataRange_fulfilled st
            (Some (ColumnarQueryResponse.extend response
               \<lparr>pay_offset = offset params,
                pay_isPrefetch =
                  (case isPrefetch params of Some b \<Rightarrow> b | None \<Rightarrow> False)\<rparr>)))"

subsection \<open>Cancellation scopes\<close>

text \<open>
  The three scopes of the specification, the controller variable of each, and the service
  call that starts a request in each.
\<close>

datatype scope = Foreground | Prefetch | Search

fun controller_of :: "scope \<Rightarrow> ServiceState \<Rightarrow> nat option" where
  "controller_of Foreground s = initialQueryController s"
| "controller_of Prefetch s = prefetchController s"
| "controller_of Search s = searchController s"

fun start_in :: "scope \<Rightarrow> ServiceState \<Rightarrow> ServiceState \<times> nat" where
  "start_in Foreground s = queryRaw_start s False"
| "start_in Prefetch s = queryRaw_start s True"
| "start_in Search s = search_start s"

text \<open>
  The invariant of the service state: controllers are numbered below the next one to be
  made, and no controller sits in two variables.
\<close>

definition fresh_below :: "nat \<Rightarrow> nat option \<Rightarrow> bool" where
  "fresh_below n c = (case c of None \<Rightarrow> True | Some k \<Rightarrow> k < n)"

definition apart :: "nat option \<Rightarrow> nat option \<Rightarrow> bool" where
  "apart a b = (case a of None \<Rightarrow> True | Some k \<Rightarrow> b \<noteq> Some k)"

definition wf_service :: "ServiceState \<Rightarrow> bool" where
  "wf_service s =
     (fresh_below (nextController s) (initialQueryController s)
      \<and> fresh_below (nextController s) (prefetchController s)
      \<and> fresh_below (nextController s) (searchController s)
      \<and> list_all (\<lambda>c. c < nextController s) (aborted s)
      \<and> apart (initialQueryController s) (prefetchController s)
      \<and> apart (initialQueryController s) (searchController s)
      \<and> apart (prefetchController s) (searchController s))"

subsection \<open>A small loaded store\<close>

text \<open>
  The store after the metadata and an initial fetch of a two-row result have arrived, and a
  collaborator whose every call fails.
\<close>

definition example_metadata :: TableMetadata where
  "example_metadata =
     \<lparr>tableName = ''sales'',
      dimensions = [DimensionColumn ''master_brand_id'' ''Brand'' ''string''],
      metrics = [MetricColumn ''ads_spend'' ''Ads Spend'' ''currency'' ''sum'',
                 MetricColumn ''ads_sale'' ''Ads Sale'' ''currency'' ''sum'']\<rparr>"

definition example_response :: ColumnarQueryResponse where
  "example_response =
     \<lparr>res_columns = [''master_brand_id'', ''ads_spend'', ''ads_sale''],
      res_columnTypes = [''varchar'', ''double'', ''double''],
      res_data = [[Str ''b1'', Num 5, Num 7], [Str ''b2'', Num 3, Num 4]],
      res_totalRows = 2,
      res_queryTimeMs = 12,
      res_cached = False\<rparr>"

definition example_loaded :: PrefetchState where
  "example_loaded =
     fetchInitialData_fulfilled
       (fetchInitialData_pending (initialState\<lparr>metadata := Some example_metadata\<rparr>))
       example_response"

definition failing_server :: "QueryRequest \<Rightarrow> bool \<Rightarrow> string option + ColumnarQueryResponse" where
  "failing_server request pf = Inl (Some ''Network Error'')"

subsection \<open>A store at the cache ceiling\<close>

text \<open>
  The store holding \<^verbatim>\<open>MAX_CACHED_ROWS\<close> rows, and the payload of a fulfilled range fetch of
  two more rows at offset 10000.
\<close>

definition example_full :: PrefetchState where
  "example_full =
     example_loaded\<lparr>allData := replicate 10000 [Str ''old'', Num 1, Num 2],
                     loadedRanges := [\<lparr>start = 0, end' = 10000\<rparr>],
                     totalRows := 20000\<rparr>"

definition example_payload :: FetchRangePayload where
  "example_payload =
     ColumnarQueryResponse.extend (example_response\<lparr>res_totalRows := 20000\<rparr>)
       \<lparr>pay_offset = 10000, pay_isPrefetch = False\<rparr>"

text \<open>
  The names of a column list that the fetched column list has, in their order, and a metric
  selection after one metric is toggled.
\<close>

abbreviation present :: "string list \<Rightarrow> string list \<Rightarrow> string list" where
  "present allCols cols \<equiv> filter (\<lambda>c. c \<in> set allCols) cols"

abbreviation toggled :: "string \<Rightarrow> string list \<Rightarrow> string list" where
  "toggled m ms \<equiv> (if m \<in> set ms then remove1 m ms else ms @ [m])"

subsection \<open>Properties of a tracked set of ranges\<close>

text \<open>
  Two ranges with more than one offset between them, and a range lying within one of a list
  of ranges.
\<close>

definition apart_by_gap :: "range \<Rightarrow> range \<Rightarrow> bool" where
  "apart_by_gap a b = (end' a + 1 < start b)"

definition held_by :: "range \<Rightarrow> range list \<Rightarrow> bool" where
  "held_by r ms = list_ex (\<lambda>m. start m \<le> start r \<and> end' r \<le> end' m) ms"

text \<open>The payload of a fulfilled range fetch of two rows at offset 3.\<close>

definition example_gap_payload :: FetchRangePayload where
  "example_gap_payload =
     ColumnarQueryResponse.extend (example_response\<lparr>res_totalRows := 5\<rparr>)
       \<lparr>pay_offset = 3, pay_isPrefetch = False\<rparr>"

section \<open>The windowing engine\<close>

text \<open>
  The \<^verbatim>\<open>useMemo\<close> of \<^verbatim>\<open>useVirtualScroll\<close> with \<^verbatim>\<open>offsetTop\<close> and
  \<^verbatim>\<open>totalHeight\<close>, as a function of the configuration and of the \<^verbatim>\<open>scrollTop\<close>
  state. Pixels are reals. A \<^verbatim>\<open>rowHeight\<close> of zero gives infinities and NaN in
  JavaScript, which the reals do not have: that case is \<open>None\<close>.
\<close>

record VirtualScrollResult =
  startIndex :: int
  endIndex :: int
  visibleRows :: int
  offsetTop :: real
  totalHeight :: real

definition useVirtualScroll ::
  "int \<Rightarrow> real \<Rightarrow> real \<Rightarrow> int \<Rightarrow> real \<Rightarrow> VirtualScrollResult option" where
  "useVirtualScroll numRows rowHeight containerHeight overscan scrollTop =
     (if rowHeight = 0 then None
      else (let visibleCount = \<lceil>containerHeight / rowHeight\<rceil>;
                start = max 0 (\<lfloor>scrollTop / rowHeight\<rfloor> - overscan);
                end = min numRows (\<lceil>(scrollTop + containerHeight) / rowHeight\<rceil> + overscan)
            in Some \<lparr>startIndex = start,
                     endIndex = end,
                     visibleRows = visibleCount,
                     offsetTop = of_int start * rowHeight,
                     totalHeight = of_int numRows * rowHeight\<rparr>))"

text \<open>
  The scroll handler. The hook's state is \<^verbatim>\<open>scrollTop\<close>, \<^verbatim>\<open>tickingRef.current\<close> and
  the callbacks registered with \<^verbatim>\<open>requestAnimationFrame\<close>; a callback is the closure
  \<^verbatim>\<open>() => { setScrollTop(newScrollTop); tickingRef.current = false; }\<close>, held here by
  the \<^verbatim>\<open>newScrollTop\<close> it captured. An animation frame runs the registered callbacks in
  order.
\<close>

record VirtualScrollHook =
  hook_scrollTop :: real
  tickingRef :: bool
  frameCallbacks :: "real list"

definition handleScroll :: "VirtualScrollHook \<Rightarrow> real \<Rightarrow> VirtualScrollHook" where
  "handleScroll h newScrollTop =
     (if \<not> tickingRef h
      then h\<lparr>tickingRef := True, frameCallbacks := frameCallbacks h @ [newScrollTop]\<rparr>
      else h)"

definition frameCallback :: "VirtualScrollHook \<Rightarrow> real \<Rightarrow> VirtualScrollHook" where
  "frameCallback h newScrollTop = h\<lparr>hook_scrollTop := newScrollTop, tickingRef := False\<rparr>"

definition animationFrame :: "VirtualScrollHook \<Rightarrow> VirtualScrollHook" where
  "animationFrame h = foldl frameCallback (h\<lparr>frameCallbacks := []\<rparr>) (frameCallbacks h)"

definition idleHook :: "real \<Rightarrow> VirtualScrollHook" where
  "idleHook pos = \<lparr>hook_scrollTop = pos, tickingRef = False, frameCallbacks = []\<rparr>"

section \<open>The row-group calculator\<close>

text \<open>
  \<^verbatim>\<open>GroupInfo\<close> and \<^verbatim>\<open>RowSpan\<close>. Both maps of the hook are keyed by the string
  \<^verbatim>\<open>`${row}-${col}`\<close>, which determines the pair of indices; the key here is the pair.
\<close>

record GroupInfo =
  group_value :: cell
  startRow :: nat
  rowCount :: nat

record RowSpan =
  span_rowIndex :: nat
  span_colIndex :: nat
  span_len :: nat

type_synonym group_map = "nat \<times> nat \<rightharpoonup> GroupInfo"

type_synonym span_map = "nat \<times> nat \<rightharpoonup> RowSpan"

text \<open>\<^verbatim>\<open>data[r]?.[c]\<close>: \<^verbatim>\<open>undefined\<close> when the row or the cell does not exist.\<close>

definition cellOf :: "cell list list \<Rightarrow> nat \<Rightarrow> nat \<Rightarrow> cell" where
  "cellOf rows r c = (if r < length rows then cell_at (rows ! r) (int c) else Undefined)"

text \<open>
  \<^verbatim>\<open>checkPrevSpanningColumnsMatch\<close>: no spanning column left of \<^verbatim>\<open>upToCol\<close> differs
  between the two rows. \<^verbatim>\<open>spanningColIndices\<close> is a \<^verbatim>\<open>Set\<close>, held as the list of its
  members in insertion order.
\<close>

definition checkPrevSpanningColumnsMatch ::
  "cell list list \<Rightarrow> nat \<Rightarrow> nat \<Rightarrow> nat \<Rightarrow> nat list \<Rightarrow> bool" where
  "checkPrevSpanningColumnsMatch rows row1 row2 upToCol spanningColIndices =
     list_all (\<lambda>c. \<not> (c \<in> set spanningColIndices \<and> cellOf rows row1 c \<noteq> cellOf rows row2 c))
       [0..<upToCol]"

text \<open>
  One iteration of the inner loop of \<^verbatim>\<open>groupMap\<close> at \<^verbatim>\<open>rowIndex\<close>, on the loop state
  \<^verbatim>\<open>(groupStart, currentValue, map)\<close>; the loop over the rows of one column; the loop
  over the spanning columns.
\<close>

definition groupStep ::
  "cell list list \<Rightarrow> nat list \<Rightarrow> nat \<Rightarrow> nat \<Rightarrow> nat \<times> cell \<times> group_map \<Rightarrow> nat \<times> cell \<times> group_map" where
  "groupStep rows spanningColIndices colIndex rowIndex st =
     (case st of (groupStart, currentValue, m) \<Rightarrow>
        (let value = (if rowIndex < length rows then cellOf rows rowIndex colIndex else Null);
             prevColumnsMatch = checkPrevSpanningColumnsMatch rows groupStart rowIndex colIndex
                                  spanningColIndices
         in if value \<noteq> currentValue \<or> \<not> prevColumnsMatch \<or> rowIndex = length rows
            then (let rowCount = rowIndex - groupStart
                  in (rowIndex, value,
                      fold (\<lambda>r mp. mp((r, colIndex) \<mapsto>
                              \<lparr>group_value = currentValue, startRow = groupStart,
                               rowCount = rowCount\<rparr>))
                        [groupStart..<rowIndex] m))
            else (groupStart, currentValue, m)))"

definition groupColumn :: "cell list list \<Rightarrow> nat list \<Rightarrow> nat \<Rightarrow> group_map \<Rightarrow> group_map" where
  "groupColumn rows spanningColIndices colIndex m =
     snd (snd (fold (groupStep rows spanningColIndices colIndex) [1..<Suc (length rows)]
                 (0, cellOf rows 0 colIndex, m)))"

definition groupMap :: "cell list list \<Rightarrow> nat list \<Rightarrow> group_map" where
  "groupMap rows spanningColIndices =
     (if length rows = 0 \<or> length spanningColIndices = 0 then Map.empty
      else fold (groupColumn rows spanningColIndices) spanningColIndices Map.empty)"

text \<open>The same three for \<^verbatim>\<open>spanMap\<close>.\<close>

definition spanStep ::
  "cell list list \<Rightarrow> nat list \<Rightarrow> nat \<Rightarrow> nat \<Rightarrow> nat \<times> cell \<times> span_map \<Rightarrow> nat \<times> cell \<times> span_map" where
  "spanStep rows spanningColIndices colIndex rowIndex st =
     (case st of (spanStart, currentValue, m) \<Rightarrow>
        (let value = (if rowIndex < length rows then cellOf rows rowIndex colIndex else Null);
             prevColumnsMatch = checkPrevSpanningColumnsMatch rows spanStart rowIndex colIndex
                                  spanningColIndices
         in if value \<noteq> currentValue \<or> \<not> prevColumnsMatch \<or> rowIndex = length rows
            then (let span = rowIndex - spanStart
                  in (rowIndex, value,
                      if span > 1
                      then m((spanStart, colIndex) \<mapsto>
                             \<lparr>span_rowIndex = spanStart, span_colIndex = colIndex, span_len = span\<rparr>)
                      else m))
            else (spanStart, currentValue, m)))"

definition spanColumn :: "cell list list \<Rightarrow> nat list \<Rightarrow> nat \<Rightarrow> span_map \<Rightarrow> span_map" where
  "spanColumn rows spanningColIndices colIndex m =
     snd (snd (fold (spanStep rows spanningColIndices colIndex) [1..<Suc (length rows)]
                 (0, cellOf rows 0 colIndex, m)))"

definition spanMap :: "cell list list \<Rightarrow> nat list \<Rightarrow> span_map" where
  "spanMap rows spanningColIndices =
     (if length rows = 0 \<or> length spanningColIndices = 0 then Map.empty
      else fold (spanColumn rows spanningColIndices) spanningColIndices Map.empty)"

text \<open>
  The spanning columns of the hook: the indices, below \<^verbatim>\<open>dimensionCount\<close>, of the column
  names that are in \<^verbatim>\<open>SPANNING_COLUMNS\<close> once in lower case. \<^verbatim>\<open>toLowerCase\<close> is
  modelled on the letters A to Z, which is what it does on the ASCII column names of the
  table.
\<close>

definition SPANNING_COLUMNS :: "string list" where
  "SPANNING_COLUMNS = [''principal_category'', ''main_category'', ''category'', ''sub_category'']"

definition toLowerCase :: "string \<Rightarrow> string" where
  "toLowerCase s =
     map (\<lambda>ch. case map_of (zip ''ABCDEFGHIJKLMNOPQRSTUVWXYZ'' ''abcdefghijklmnopqrstuvwxyz'') ch of
                  Some lower \<Rightarrow> lower
                | None \<Rightarrow> ch) s"

definition spanningColIndices :: "string list \<Rightarrow> nat \<Rightarrow> nat list" where
  "spanningColIndices columnNames dimensionCount =
     filter (\<lambda>index. toLowerCase (columnNames ! index) \<in> set SPANNING_COLUMNS
                     \<and> index < dimensionCount)
       [0..<length columnNames]"

text \<open>The buffer of the parent and child example of the specification.\<close>

definition rowsAXY :: "cell list list" where
  "rowsAXY = [[Str ''A'', Str ''X''], [Str ''A'', Str ''Y''], [Str ''B'', Str ''X'']]"

subsection \<open>Runs\<close>

text \<open>
  Two rows belong to the same group of column \<open>c\<close> when they agree in column \<open>c\<close> and in
  every spanning column to its left. A group entry describes a maximal run when it is not
  empty, lies within the buffer, carries the value of its first row, all its rows belong
  to the group of its first row, and neither the row after it nor the row before it does.
\<close>

definition same_group :: "cell list list \<Rightarrow> nat list \<Rightarrow> nat \<Rightarrow> nat \<Rightarrow> nat \<Rightarrow> bool" where
  "same_group rows S c a b =
     (cellOf rows a c = cellOf rows b c
      \<and> (\<forall>c' \<in> set S. c' < c \<longrightarrow> cellOf rows a c' = cellOf rows b c'))"

definition maximal_run :: "cell list list \<Rightarrow> nat list \<Rightarrow> nat \<Rightarrow> GroupInfo \<Rightarrow> bool" where
  "maximal_run rows S c g =
     (0 < rowCount g
      \<and> startRow g + rowCount g \<le> length rows
      \<and> group_value g = cellOf rows (startRow g) c
      \<and> (\<forall>j \<in> {startRow g ..< startRow g + rowCount g}. same_group rows S c (startRow g) j)
      \<and> (startRow g + rowCount g < length rows
           \<longrightarrow> \<not> same_group rows S c (startRow g) (startRow g + rowCount g))
      \<and> (0 < startRow g \<longrightarrow> \<not> same_group rows S c (startRow g - 1) (startRow g)))"

text \<open>The span entry that goes with the group entry of a cell: one at the first row of a
  run of more than one row.\<close>

definition span_of :: "group_map \<Rightarrow> nat \<Rightarrow> nat \<Rightarrow> RowSpan option" where
  "span_of mg r c =
     (case mg (r, c) of
        None \<Rightarrow> None
      | Some g \<Rightarrow>
          if startRow g = r \<and> 1 < rowCount g
          then Some \<lparr>span_rowIndex = r, span_colIndex = c, span_len = rowCount g\<rparr>
          else None)"

text \<open>
  The invariant of the row loop of \<^verbatim>\<open>groupMap\<close> after iteration \<open>k\<close>, and the relation
  between the states of the two row loops after iteration \<open>k\<close>.
\<close>

definition group_inv ::
  "cell list list \<Rightarrow> nat list \<Rightarrow> nat \<Rightarrow> group_map \<Rightarrow> nat \<Rightarrow> nat \<times> cell \<times> group_map \<Rightarrow> bool" where
  "group_inv rows S c m0 k st =
     (case st of (g, v, m) \<Rightarrow>
        g \<le> k
        \<and> (k = length rows \<longrightarrow> g = k)
        \<and> (g < length rows \<longrightarrow> v = cellOf rows g c)
        \<and> (\<forall>j. g \<le> j \<and> j \<le> k \<and> j < length rows \<longrightarrow> same_group rows S c g j)
        \<and> (0 < g \<and> g < length rows \<longrightarrow> \<not> same_group rows S c (g - 1) g)
        \<and> (\<forall>r < g. \<exists>gi. m (r, c) = Some gi \<and> startRow gi \<le> r \<and> r < startRow gi + rowCount gi
                       \<and> maximal_run rows S c gi)
        \<and> (\<forall>r c'. c' \<noteq> c \<or> g \<le> r \<longrightarrow> m (r, c') = m0 (r, c')))"

definition lock_inv ::
  "nat \<Rightarrow> nat \<Rightarrow> group_map \<Rightarrow> span_map \<Rightarrow> nat \<times> cell \<times> group_map \<Rightarrow> nat \<times> cell \<times> span_map \<Rightarrow> bool" where
  "lock_inv c k mg0 ms0 stg sts =
     (case stg of (g, v, mg) \<Rightarrow>
        (case sts of (g2, v2, ms) \<Rightarrow>
           g2 = g \<and> v2 = v \<and> g \<le> k
           \<and> (\<forall>r. ms (r, c) = span_of mg r c)
           \<and> (\<forall>r. g \<le> r \<longrightarrow> mg (r, c) = None)
           \<and> (\<forall>r c'. c' \<noteq> c \<longrightarrow> ms (r, c') = ms0 (r, c'))))"

section \<open>Range merging\<close>

text \<open>
  Whatever the input, two neighbours of the merged list are more than one offset apart: no
  two merged ranges overlap or touch.
\<close>

lemma merge_step_nonempty: "merge_step merged current \<noteq> []"
  by (simp add: merge_step_def Let_def)

lemma merge_step_gapped:
  assumes "merged \<noteq> []" and "successively apart_by_gap merged"
  shows "successively apart_by_gap (merge_step merged current)"
proof -
  from assms(1) have split: "merged = butlast merged @ [last merged]" by simp
  from assms(2) split have bl: "successively apart_by_gap (butlast merged)"
    and link: "butlast merged \<noteq> [] \<longrightarrow> apart_by_gap (last (butlast merged)) (last merged)"
    by (metis successively_append_iff list.sel(1) not_Cons_self2)+
  show ?thesis
  proof (cases "start current \<le> end' (last merged) + 1")
    case True
    then have "merge_step merged current
      = butlast merged @ [(last merged)\<lparr>end' := max (end' (last merged)) (end' current)\<rparr>]"
      by (simp add: merge_step_def Let_def)
    with bl link show ?thesis
      by (auto simp: successively_append_iff apart_by_gap_def)
  next
    case False
    then have "merge_step merged current = merged @ [current]"
      by (simp add: merge_step_def Let_def)
    with assms False show ?thesis
      by (auto simp: successively_append_iff apart_by_gap_def)
  qed
qed

lemma foldl_merge_step_gapped:
  "merged \<noteq> [] \<Longrightarrow> successively apart_by_gap merged \<Longrightarrow>
   successively apart_by_gap (foldl merge_step merged xs)"
  by (induction xs arbitrary: merged) (simp_all add: merge_step_nonempty merge_step_gapped)

lemma mergeRanges_gapped: "successively apart_by_gap (mergeRanges ranges)"
  by (simp add: mergeRanges_def Let_def foldl_merge_step_gapped)

text \<open>
  Every range given to \<open>mergeRanges\<close> lies within one of the merged ranges, so a range is
  reported loaded as soon as it has been added.
\<close>

lemma merge_step_contained:
  assumes ne: "merged \<noteq> []"
  shows "held_by r merged \<Longrightarrow> held_by r (merge_step merged current)"
    and "start (last merged) \<le> start current \<Longrightarrow> held_by current (merge_step merged current)"
    and "start (last merged) \<le> start current \<Longrightarrow>
         start (last (merge_step merged current)) \<le> start current"
proof -
  from ne have split: "set merged = set (butlast merged) \<union> {last merged}"
    by (metis append_butlast_last_id list.set(1,2) set_append)
  show "held_by r merged \<Longrightarrow> held_by r (merge_step merged current)"
    by (auto simp: held_by_def merge_step_def Let_def list_ex_iff split)
  show "start (last merged) \<le> start current \<Longrightarrow> held_by current (merge_step merged current)"
    by (auto simp: held_by_def merge_step_def Let_def list_ex_iff)
  show "start (last merged) \<le> start current \<Longrightarrow>
         start (last (merge_step merged current)) \<le> start current"
    by (auto simp: merge_step_def Let_def)
qed

lemma foldl_merge_step_contained:
  assumes "merged \<noteq> []" and "sorted (map start xs)"
    and "\<forall>x \<in> set xs. start (last merged) \<le> start x"
    and "held_by r merged \<or> r \<in> set xs"
  shows "held_by r (foldl merge_step merged xs)"
  using assms
proof (induction xs arbitrary: merged)
  case Nil
  then show ?case by simp
next
  case (Cons x xs)
  let ?m = "merge_step merged x"
  from Cons.prems have le: "start (last merged) \<le> start x" by simp
  have ne: "?m \<noteq> []" by (rule merge_step_nonempty)
  have srt: "sorted (map start xs)" using Cons.prems(2) by simp
  have lst: "\<forall>y \<in> set xs. start (last ?m) \<le> start y"
  proof
    fix y assume y: "y \<in> set xs"
    with Cons.prems(2) have "start x \<le> start y" by auto
    with merge_step_contained(3) [OF Cons.prems(1) le] show "start (last ?m) \<le> start y"
      by simp
  qed
  have "held_by r ?m \<or> r \<in> set xs"
    using Cons.prems(4) merge_step_contained(1) [OF Cons.prems(1)]
      merge_step_contained(2) [OF Cons.prems(1) le] by auto
  from Cons.IH [OF ne srt lst this] show ?case by simp
qed

lemma mergeRanges_contains:
  assumes "r \<in> set ranges"
  shows "held_by r (mergeRanges ranges)"
proof -
  from assms have ne: "ranges \<noteq> []" by auto
  define sorted_ranges where "sorted_ranges = sort_key start ranges"
  from ne have sne: "sorted_ranges \<noteq> []"
    by (metis sorted_ranges_def length_sort length_0_conv)
  then obtain h t where ht: "sorted_ranges = h # t" by (cases sorted_ranges) auto
  have srt: "sorted (map start (h # t))"
    unfolding ht [symmetric] sorted_ranges_def by simp
  have mem: "r \<in> set (h # t)"
    unfolding ht [symmetric] sorted_ranges_def using assms by simp
  have "held_by r (foldl merge_step [h] t)"
  proof (rule foldl_merge_step_contained)
    show "[h] \<noteq> []" by simp
    show "sorted (map start t)" using srt by simp
    show "\<forall>x \<in> set t. start (last [h]) \<le> start x" using srt by simp
    show "held_by r [h] \<or> r \<in> set t" using mem by (auto simp: held_by_def)
  qed
  with ne ht show ?thesis
    by (simp add: mergeRanges_def Let_def sorted_ranges_def [symmetric])
qed

lemma isRangeLoaded_after_add:
  "isRangeLoaded (mergeRanges (ranges @ [\<lparr>start = s, end' = s + n\<rparr>])) s n"
proof -
  have "held_by \<lparr>start = s, end' = s + n\<rparr> (mergeRanges (ranges @ [\<lparr>start = s, end' = s + n\<rparr>]))"
    by (rule mergeRanges_contains) simp
  then show ?thesis by (simp add: held_by_def isRangeLoaded_def)
qed

section \<open>Requests for a range that is already loaded\<close>

lemma example_loaded_ranges: "loadedRanges example_loaded = [\<lparr>start = 0, end' = 2\<rparr>]"
  by (simp add: example_loaded_def fetchInitialData_fulfilled_def refilter_def Let_def
      example_response_def)

lemma example_loaded_flags:
  "isLoading example_loaded = False"
  "isPrefetching example_loaded = False"
  "error example_loaded = None"
  "metadata example_loaded = Some example_metadata"
  by (simp_all add: example_loaded_def fetchInitialData_fulfilled_def refilter_def Let_def
      fetchInitialData_pending_def initialState_def)

text \<open>
  What the thunk does on a loaded range: the collaborator is never called and only the two
  flags are written. \<^verbatim>\<open>pending\<close> raises \<^verbatim>\<open>isLoading\<close> for a request that is not a
  prefetch, and \<^verbatim>\<open>fulfilled\<close> with a \<^verbatim>\<open>null\<close> payload lowers \<^verbatim>\<open>isPrefetching\<close> only.
\<close>

lemma requestRange_loaded_frame:
  assumes "metadata st \<noteq> None"
    and "isRangeLoaded (loadedRanges st) (offset params)
           (case limit params of Some l \<Rightarrow> l | None \<Rightarrow> BATCH_SIZE)"
  shows "requestRange q st params =
           (st\<lparr>isPrefetching := False,
               isLoading := (if isPrefetch params = Some True then isLoading st else True)\<rparr>, [])"
  using assms
  by (auto simp: requestRange_def fetchDataRange_pending_def fetchDataRange_creator_def
      fetchDataRange_fulfilled_def)

text \<open>
  C2. The claim: a \<open>requestRange\<close> for a loaded range never calls the collaborator and leaves
  the buffer, the ranges, \<open>totalRows\<close> and the loading and prefetching flags as they were.
  On the loaded two-row store a foreground request for \<open>[0, 2)\<close> makes no call, but
  \<open>isLoading\<close>, false before, is true after the thunk has resolved.
\<close>

theorem requestRange_loaded_leaves_isLoading_set:
  "isRangeLoaded (loadedRanges example_loaded) 0 2
   \<and> isLoading example_loaded = False
   \<and> snd (requestRange failing_server example_loaded
            \<lparr>offset = 0, limit = Some 2, isPrefetch = Some False\<rparr>) = []
   \<and> isLoading (fst (requestRange failing_server example_loaded
            \<lparr>offset = 0, limit = Some 2, isPrefetch = Some False\<rparr>)) = True"
  by (simp add: requestRange_def fetchDataRange_pending_def fetchDataRange_creator_def
      fetchDataRange_fulfilled_def example_loaded_ranges example_loaded_flags isRangeLoaded_def)

section \<open>Rejected fetches\<close>

text \<open>
  C8, as the claim states it: every rejected fetch updates \<open>error\<close> if and only if the cause
  is not a cancellation. A rejected range fetch with the message \<open>Network Error\<close> leaves
  \<open>error\<close> empty.
\<close>

theorem fetchDataRange_rejected_real_failure_silent:
  "Some ''Network Error'' \<noteq> Some ''Request cancelled''
   \<and> error example_loaded = None
   \<and> error (fetchDataRange_rejected example_loaded (Some ''Network Error'')) = None"
  by (simp add: fetchDataRange_rejected_def example_loaded_flags)

text \<open>
  C8, amended. A rejected initial fetch lowers \<open>isLoading\<close> and \<open>needsDataRefresh\<close> and
  writes \<open>error\<close> exactly when the message is not \<open>Request cancelled\<close> (the message, or
  \<open>Failed to fetch data\<close> when there is none), and writes nothing else; a rejected range
  fetch lowers \<open>isLoading\<close> and \<open>isPrefetching\<close> and writes nothing else, so it never
  writes \<open>error\<close>. Neither changes the buffer, the visible projection (from which the
  spans are computed), the loaded ranges or \<open>totalRows\<close>.
\<close>

theorem rejected_error_and_frame:
  "fetchInitialData_rejected st errorMsg =
     st\<lparr>isLoading := False,
        needsDataRefresh := False,
        error := (if errorMsg = Some ''Request cancelled'' then error st
                  else Some (case errorMsg of Some m \<Rightarrow> m | None \<Rightarrow> ''Failed to fetch data''))\<rparr>
   \<and> fetchDataRange_rejected st errorMsg = st\<lparr>isPrefetching := False, isLoading := False\<rparr>
   \<and> isLoading (fetchInitialData_rejected st errorMsg) = False
   \<and> needsDataRefresh (fetchInitialData_rejected st errorMsg) = False
   \<and> isPrefetching (fetchInitialData_rejected st errorMsg) = isPrefetching st
   \<and> isLoading (fetchDataRange_rejected st errorMsg) = False
   \<and> isPrefetching (fetchDataRange_rejected st errorMsg) = False
   \<and> error (fetchInitialData_rejected st errorMsg) =
     (if errorMsg = Some ''Request cancelled'' then error st
      else Some (case errorMsg of Some m \<Rightarrow> m | None \<Rightarrow> ''Failed to fetch data''))
   \<and> error (fetchDataRange_rejected st errorMsg) = error st
   \<and> allData (fetchInitialData_rejected st errorMsg) = allData st
   \<and> data (fetchInitialData_rejected st errorMsg) = data st
   \<and> columns (fetchInitialData_rejected st errorMsg) = columns st
   \<and> loadedRanges (fetchInitialData_rejected st errorMsg) = loadedRanges st
   \<and> totalRows (fetchInitialData_rejected st errorMsg) = totalRows st
   \<and> allData (fetchDataRange_rejected st errorMsg) = allData st
   \<and> data (fetchDataRange_rejected st errorMsg) = data st
   \<and> columns (fetchDataRange_rejected st errorMsg) = columns st
   \<and> loadedRanges (fetchDataRange_rejected st errorMsg) = loadedRanges st
   \<and> totalRows (fetchDataRange_rejected st errorMsg) = totalRows st"
  by (simp add: fetchInitialData_rejected_def fetchDataRange_rejected_def)

section \<open>The visible projection\<close>

lemma indexOf_ge: "- 1 \<le> indexOf xs x"
  by (induction xs) (auto simp: Let_def)

lemma indexOf_absent: "indexOf xs x = - 1 \<longleftrightarrow> x \<notin> set xs"
proof (induction xs)
  case Nil
  show ?case by simp
next
  case (Cons y ys)
  have "- 1 \<le> indexOf ys x" by (rule indexOf_ge)
  with Cons show ?case by (auto simp: Let_def)
qed

lemma indexOf_present:
  "x \<in> set xs \<Longrightarrow> 0 \<le> indexOf xs x \<and> indexOf xs x < int (length xs) \<and> xs ! nat (indexOf xs x) = x"
proof (induction xs)
  case Nil
  then show ?case by simp
next
  case (Cons y ys)
  show ?case
  proof (cases "y = x")
    case True
    then show ?thesis by simp
  next
    case False
    with Cons.prems have mem: "x \<in> set ys" by simp
    from Cons.IH [OF mem] have ih: "0 \<le> indexOf ys x" "indexOf ys x < int (length ys)"
      "ys ! nat (indexOf ys x) = x" by simp_all
    from ih(1) have "nat (indexOf ys x + 1) = Suc (nat (indexOf ys x))" by simp
    with False ih show ?thesis by (simp add: Let_def)
  qed
qed

lemma columnIndices_eq:
  "columnIndices allCols dims mets =
     map (indexOf allCols) (filter (\<lambda>c. c \<in> set allCols) (dims @ mets))"
  unfolding columnIndices_def filter_map
  by (simp add: comp_def indexOf_absent)

lemma columnIndices_in_range:
  "idx \<in> set (columnIndices allCols dims mets) \<Longrightarrow> 0 \<le> idx \<and> idx < int (length allCols)"
  unfolding columnIndices_eq using indexOf_present [of _ allCols] by auto

lemma filterVisibleData_columns:
  "fvisibleColumns (filterVisibleData allCols rows dims mets) =
     filter (\<lambda>c. c \<in> set allCols) (dims @ mets)"
proof -
  have "map (\<lambda>idx. allCols ! nat idx) (map (indexOf allCols) (filter (\<lambda>c. c \<in> set allCols) cs))
        = filter (\<lambda>c. c \<in> set allCols) cs" for cs
    by (induction cs) (simp_all add: indexOf_present)
  then show ?thesis
    by (simp add: filterVisibleData_def Let_def columnIndices_eq)
qed

lemma filterVisibleData_data:
  "fvisibleData (filterVisibleData allCols rows dims mets) =
     map (\<lambda>row. map (\<lambda>c. cell_at row (indexOf allCols c))
                  (filter (\<lambda>c. c \<in> set allCols) (dims @ mets))) rows"
  by (simp add: filterVisibleData_def Let_def columnIndices_eq comp_def)

lemma toggle_splice:
  "x \<in> set xs \<Longrightarrow> take (nat (indexOf xs x)) xs @ drop (nat (indexOf xs x) + 1) xs = remove1 x xs"
proof (induction xs)
  case Nil
  then show ?case by simp
next
  case (Cons y ys)
  show ?case
  proof (cases "y = x")
    case True
    then show ?thesis by simp
  next
    case False
    with Cons.prems have mem: "x \<in> set ys" by simp
    from indexOf_present [OF mem] have "0 \<le> indexOf ys x" by simp
    then have "nat (indexOf ys x + 1) = Suc (nat (indexOf ys x))" by simp
    moreover from mem have "indexOf ys x \<noteq> - 1" by (simp add: indexOf_absent)
    ultimately show ?thesis using False Cons.IH [OF mem] by (simp add: Let_def)
  qed
qed

lemma toggleMetric_selection:
  "toggleMetric st m =
     (let st1 = st\<lparr>selectedMetrics := toggled m (selectedMetrics st)\<rparr>
      in if length (allData st1) > 0 then refilter st1 else st1)"
proof (cases "m \<in> set (selectedMetrics st)")
  case True
  then have "indexOf (selectedMetrics st) m \<noteq> - 1" by (simp add: indexOf_absent)
  with True toggle_splice [OF True] show ?thesis
    by (simp add: toggleMetric_def Let_def)
next
  case False
  then have "indexOf (selectedMetrics st) m = - 1" by (simp add: indexOf_absent)
  with False show ?thesis
    by (simp add: toggleMetric_def Let_def)
qed

lemma example_loaded_projection:
  "allData example_loaded = [[Str ''b1'', Num 5, Num 7], [Str ''b2'', Num 3, Num 4]]"
  "allColumns example_loaded = [''master_brand_id'', ''ads_spend'', ''ads_sale'']"
  "selectedDimensions example_loaded = [''master_brand_id'']"
  by (simp_all add: example_loaded_def fetchInitialData_fulfilled_def refilter_def Let_def
      fetchInitialData_pending_def initialState_def example_response_def)

text \<open>
  C6. On a store with a non-empty buffer, \<open>setSelectedMetrics\<close> and \<open>toggleMetric\<close> are
  functions of the state alone (no collaborator takes part) and write only the metric
  selection and the visible projection: the visible columns are the selected dimensions
  followed by the selected metrics, in selection order, restricted to the fetched column
  names; the visible data is that column slice of every buffered row. The buffer, the loaded
  ranges and \<open>totalRows\<close> are unchanged.
\<close>

theorem metric_selection_is_projection:
  assumes "allData st \<noteq> []"
  shows "setSelectedMetrics st ms =
           st\<lparr>selectedMetrics := ms,
              columns := present (allColumns st) (selectedDimensions st @ ms),
              data := map (\<lambda>row. map (\<lambda>c. cell_at row (indexOf (allColumns st) c))
                             (present (allColumns st) (selectedDimensions st @ ms)))
                        (allData st),
              columnTypes := visibleColumnTypesOf (allColumns st) (allColumnTypes st)
                 (present (allColumns st) (selectedDimensions st @ ms))\<rparr>
    \<and> toggleMetric st m =
           st\<lparr>selectedMetrics := toggled m (selectedMetrics st),
              columns := present (allColumns st)
                           (selectedDimensions st @ toggled m (selectedMetrics st)),
              data := map (\<lambda>row. map (\<lambda>c. cell_at row (indexOf (allColumns st) c))
                             (present (allColumns st)
                                (selectedDimensions st @ toggled m (selectedMetrics st))))
                        (allData st),
              columnTypes := visibleColumnTypesOf (allColumns st) (allColumnTypes st)
                 (present (allColumns st)
                    (selectedDimensions st @ toggled m (selectedMetrics st)))\<rparr>
    \<and> allData (setSelectedMetrics st ms) = allData st
    \<and> loadedRanges (setSelectedMetrics st ms) = loadedRanges st
    \<and> totalRows (setSelectedMetrics st ms) = totalRows st
    \<and> allData (toggleMetric st m) = allData st
    \<and> loadedRanges (toggleMetric st m) = loadedRanges st
    \<and> totalRows (toggleMetric st m) = totalRows st"
proof -
  have s: "setSelectedMetrics st ms =
           st\<lparr>selectedMetrics := ms,
              columns := present (allColumns st) (selectedDimensions st @ ms),
              data := map (\<lambda>row. map (\<lambda>c. cell_at row (indexOf (allColumns st) c))
                             (present (allColumns st) (selectedDimensions st @ ms)))
                        (allData st),
              columnTypes := visibleColumnTypesOf (allColumns st) (allColumnTypes st)
                 (present (allColumns st) (selectedDimensions st @ ms))\<rparr>" for ms
    using assms
    by (simp add: setSelectedMetrics_def refilter_def Let_def filterVisibleData_columns
        filterVisibleData_data)
  have t: "toggleMetric st m = setSelectedMetrics st (toggled m (selectedMetrics st))"
    by (simp only: toggleMetric_selection setSelectedMetrics_def)
  show ?thesis
    unfolding t by (simp add: s)
qed

theorem metric_selection_witness:
  "allData example_loaded \<noteq> []
   \<and> columns (setSelectedMetrics example_loaded [''ads_sale'']) = [''master_brand_id'', ''ads_sale'']
   \<and> data (setSelectedMetrics example_loaded [''ads_sale''])
       = [[Str ''b1'', Num 7], [Str ''b2'', Num 4]]
   \<and> allData (setSelectedMetrics example_loaded [''ads_sale'']) = allData example_loaded"
proof -
  have h: "allData example_loaded \<noteq> []"
    by (simp add: example_loaded_projection)
  note t = metric_selection_is_projection [OF h, of "[''ads_sale'']" "''ads_sale''"]
  from t have s: "setSelectedMetrics example_loaded [''ads_sale''] =
           example_loaded\<lparr>selectedMetrics := [''ads_sale''],
              columns := present (allColumns example_loaded)
                 (selectedDimensions example_loaded @ [''ads_sale'']),
              data := map (\<lambda>row. map (\<lambda>c. cell_at row (indexOf (allColumns example_loaded) c))
                             (present (allColumns example_loaded)
                                (selectedDimensions example_loaded @ [''ads_sale''])))
                        (allData example_loaded),
              columnTypes := visibleColumnTypesOf (allColumns example_loaded)
                 (allColumnTypes example_loaded)
                 (present (allColumns example_loaded)
                    (selectedDimensions example_loaded @ [''ads_sale'']))\<rparr>"
    by (rule conjunct1)
  show ?thesis
    unfolding s by (simp add: example_loaded_projection cell_at_def)
qed

section \<open>Appending a fetched range, and eviction\<close>

lemma refilter_frame:
  "allData (refilter st) = allData st"
  "loadedRanges (refilter st) = loadedRanges st"
  "totalRows (refilter st) = totalRows st"
  "allColumns (refilter st) = allColumns st"
  "selectedDimensions (refilter st) = selectedDimensions st"
  "selectedMetrics (refilter st) = selectedMetrics st"
  by (simp_all add: refilter_def Let_def)

lemma fulfilled_append_allData:
  "allData (fulfilled_append st p) = allData st @ res_data p"
  by (simp add: fulfilled_append_def Let_def refilter_frame)

lemma fulfilled_append_loadedRanges:
  "loadedRanges (fulfilled_append st p) =
     mergeRanges (loadedRanges st
       @ [\<lparr>start = pay_offset p, end' = pay_offset p + int (length (res_data p))\<rparr>])"
  by (simp add: fulfilled_append_def Let_def refilter_frame)

lemma evict_allData:
  "allData (evict st) = drop (length (allData st) - MAX_CACHED_ROWS) (allData st)"
  by (simp add: evict_def Let_def)

lemma evict_loadedRanges:
  "length (allData st) > MAX_CACHED_ROWS \<Longrightarrow>
   loadedRanges (evict st) =
     shiftRanges (int (length (allData st) - MAX_CACHED_ROWS)) (loadedRanges st)"
  by (simp add: evict_def Let_def)

lemma evict_within_limit: "length (allData st) \<le> MAX_CACHED_ROWS \<Longrightarrow> evict st = st"
  by (simp add: evict_def)

lemma shiftRanges_bounds:
  "r \<in> set (shiftRanges e rs) \<Longrightarrow> 0 \<le> start r \<and> start r < end' r"
  by (auto simp: shiftRanges_def)

lemma fulfilled_allData:
  "allData (fetchDataRange_fulfilled st (Some p)) =
     drop (length (allData st @ res_data p) - MAX_CACHED_ROWS) (allData st @ res_data p)"
  by (simp add: fetchDataRange_fulfilled_def evict_allData fulfilled_append_allData)

lemma fulfilled_within_limit:
  "length (allData st @ res_data p) \<le> MAX_CACHED_ROWS \<Longrightarrow>
   fetchDataRange_fulfilled st (Some p) = fulfilled_append st p"
  by (simp add: fetchDataRange_fulfilled_def evict_within_limit fulfilled_append_allData)

text \<open>
  The payload the thunk builds from a response, and what a fulfilled range fetch leaves in
  \<open>totalRows\<close> and in the visible data.
\<close>

lemma payload_of_response:
  "res_data (ColumnarQueryResponse.extend response \<lparr>pay_offset = off, pay_isPrefetch = pf\<rparr>)
     = res_data response"
  "res_totalRows (ColumnarQueryResponse.extend response \<lparr>pay_offset = off, pay_isPrefetch = pf\<rparr>)
     = res_totalRows response"
  "pay_offset (ColumnarQueryResponse.extend response \<lparr>pay_offset = off, pay_isPrefetch = pf\<rparr>)
     = off"
  "pay_isPrefetch (ColumnarQueryResponse.extend response \<lparr>pay_offset = off, pay_isPrefetch = pf\<rparr>)
     = pf"
  by (cases response; simp add: ColumnarQueryResponse.extend_def)+

lemma evict_totalRows: "totalRows (evict st) = totalRows st"
  by (simp add: evict_def Let_def)

lemma fulfilled_totalRows:
  "totalRows (fetchDataRange_fulfilled st (Some p)) = res_totalRows p"
  by (simp add: fetchDataRange_fulfilled_def evict_totalRows fulfilled_append_def Let_def)

lemma fulfilled_data:
  "data (fetchDataRange_fulfilled st (Some p))
     = fvisibleData (filterVisibleData (allColumns st)
         (drop (length (allData st @ res_data p) - MAX_CACHED_ROWS) (allData st @ res_data p))
         (selectedDimensions st) (selectedMetrics st))"
proof (cases "length (allData st @ res_data p) \<le> MAX_CACHED_ROWS")
  case True
  then show ?thesis
    by (simp add: fulfilled_within_limit fulfilled_append_def Let_def refilter_def)
next
  case False
  then have "length (allData (fulfilled_append st p)) > MAX_CACHED_ROWS"
    by (simp add: fulfilled_append_allData)
  then show ?thesis
    by (simp add: fetchDataRange_fulfilled_def evict_def Let_def fulfilled_append_allData)
      (simp add: fulfilled_append_def Let_def refilter_def)
qed

text \<open>
  An initial fetch replaces the buffer by the rows received; with at most \<open>BATCH_SIZE\<close>
  rows, as the request asks, it stays below the ceiling, so only a range fetch can exceed it.
\<close>

lemma fetchInitialData_fulfilled_within_limit:
  "allData (fetchInitialData_fulfilled st payload) = res_data payload"
  "int (length (res_data payload)) \<le> BATCH_SIZE \<Longrightarrow>
   length (allData (fetchInitialData_fulfilled st payload)) \<le> MAX_CACHED_ROWS"
  by (simp_all add: fetchInitialData_fulfilled_def Let_def refilter_frame BATCH_SIZE_def
      MAX_CACHED_ROWS_def)

lemma example_full_fields:
  "allData example_full = replicate 10000 [Str ''old'', Num 1, Num 2]"
  "loadedRanges example_full = [\<lparr>start = 0, end' = 10000\<rparr>]"
  by (simp_all add: example_full_def)

lemma example_payload_fields:
  "res_data example_payload = [[Str ''b1'', Num 5, Num 7], [Str ''b2'', Num 3, Num 4]]"
  "pay_offset example_payload = 10000"
  by (simp_all add: example_payload_def example_response_def ColumnarQueryResponse.extend_def)

text \<open>
  C5. When a fulfilled range fetch makes the buffer longer than \<open>MAX_CACHED_ROWS\<close>, the
  first \<open>excess = length - MAX_CACHED_ROWS\<close> rows are dropped, so the buffer holds exactly
  \<open>MAX_CACHED_ROWS\<close> rows and every later row keeps its place shifted down by \<open>excess\<close>
  (all the received rows, when they are at most \<open>MAX_CACHED_ROWS\<close>); every merged range
  has \<open>excess\<close> subtracted from both bounds, clamped at 0, and is dropped when its end is
  not above its start; no range left has a negative or inverted bound.
\<close>

theorem eviction_drops_front_and_shifts:
  fixes st :: PrefetchState and p :: FetchRangePayload
  defines "buf \<equiv> allData st @ res_data p"
  defines "excess \<equiv> length buf - MAX_CACHED_ROWS"
  defines "st' \<equiv> fetchDataRange_fulfilled st (Some p)"
  assumes over: "length buf > MAX_CACHED_ROWS"
  shows "allData st' = drop excess buf
    \<and> length (allData st') = MAX_CACHED_ROWS
    \<and> loadedRanges st' =
        filter (\<lambda>r. end' r > start r)
          (map (\<lambda>r. \<lparr>start = max 0 (start r - int excess), end' = max 0 (end' r - int excess)\<rparr>)
             (mergeRanges (loadedRanges st
                @ [\<lparr>start = pay_offset p, end' = pay_offset p + int (length (res_data p))\<rparr>])))
    \<and> (\<forall>i. excess \<le> i \<and> i < length buf \<longrightarrow> allData st' ! (i - excess) = buf ! i)
    \<and> (length (res_data p) \<le> MAX_CACHED_ROWS \<longrightarrow>
         (\<forall>j<length (res_data p).
            allData st' ! (MAX_CACHED_ROWS - length (res_data p) + j) = res_data p ! j))
    \<and> (\<forall>r\<in>set (loadedRanges st'). 0 \<le> start r \<and> start r < end' r)"
proof -
  have all: "allData st' = drop excess buf"
    by (simp add: st'_def fetchDataRange_fulfilled_def evict_allData fulfilled_append_allData
        excess_def buf_def)
  have len: "length (allData st') = MAX_CACHED_ROWS"
    using over by (simp add: all excess_def)
  have rng: "loadedRanges st' = shiftRanges (int excess) (mergeRanges (loadedRanges st
                @ [\<lparr>start = pay_offset p, end' = pay_offset p + int (length (res_data p))\<rparr>]))"
    using over
    by (simp add: st'_def fetchDataRange_fulfilled_def evict_loadedRanges fulfilled_append_allData
        fulfilled_append_loadedRanges excess_def buf_def)
  have tail: "\<forall>i. excess \<le> i \<and> i < length buf \<longrightarrow> allData st' ! (i - excess) = buf ! i"
    by (simp add: all)
  have recent: "length (res_data p) \<le> MAX_CACHED_ROWS \<longrightarrow>
         (\<forall>j<length (res_data p).
            allData st' ! (MAX_CACHED_ROWS - length (res_data p) + j) = res_data p ! j)"
  proof (intro impI allI)
    fix j assume le: "length (res_data p) \<le> MAX_CACHED_ROWS" and j: "j < length (res_data p)"
    define i where "i = length (allData st) + j"
    have i1: "excess \<le> i" and i2: "i < length buf"
      and i3: "i - excess = MAX_CACHED_ROWS - length (res_data p) + j"
      using over le j by (simp_all add: i_def excess_def buf_def)
    from tail i1 i2 have "allData st' ! (i - excess) = buf ! i" by blast
    moreover have "buf ! i = res_data p ! j" by (simp add: buf_def i_def)
    ultimately show "allData st' ! (MAX_CACHED_ROWS - length (res_data p) + j) = res_data p ! j"
      by (simp add: i3)
  qed
  have bounds: "\<forall>r\<in>set (loadedRanges st'). 0 \<le> start r \<and> start r < end' r"
    unfolding rng using shiftRanges_bounds by blast
  from all len rng tail recent bounds show ?thesis
    by (simp add: shiftRanges_def)
qed

theorem eviction_witness:
  "length (allData example_full @ res_data example_payload) > MAX_CACHED_ROWS
   \<and> length (allData (fetchDataRange_fulfilled example_full (Some example_payload)))
       = MAX_CACHED_ROWS
   \<and> allData (fetchDataRange_fulfilled example_full (Some example_payload)) ! 9999
       = [Str ''b2'', Num 3, Num 4]"
proof -
  have over: "length (allData example_full @ res_data example_payload) > MAX_CACHED_ROWS"
    by (simp add: example_full_fields example_payload_fields MAX_CACHED_ROWS_def)
  note t = eviction_drops_front_and_shifts [OF over]
  from t have len: "length (allData (fetchDataRange_fulfilled example_full (Some example_payload)))
       = MAX_CACHED_ROWS" by blast
  from t have q: "length (res_data example_payload) \<le> MAX_CACHED_ROWS \<longrightarrow>
         (\<forall>j<length (res_data example_payload).
            allData (fetchDataRange_fulfilled example_full (Some example_payload))
              ! (MAX_CACHED_ROWS - length (res_data example_payload) + j)
            = res_data example_payload ! j)" by blast
  have "length (res_data example_payload) \<le> MAX_CACHED_ROWS"
    and "1 < length (res_data example_payload)"
    by (simp_all add: example_payload_fields MAX_CACHED_ROWS_def)
  with q have "allData (fetchDataRange_fulfilled example_full (Some example_payload))
              ! (MAX_CACHED_ROWS - length (res_data example_payload) + 1)
            = res_data example_payload ! 1"
    by blast
  then have "allData (fetchDataRange_fulfilled example_full (Some example_payload)) ! 9999
       = [Str ''b2'', Num 3, Num 4]"
    by (simp add: example_payload_fields MAX_CACHED_ROWS_def)
  with over len show ?thesis by blast
qed

text \<open>
  C10, as the claim states it: on every fulfilled range fetch the received rows occupy the
  indices from the old buffer length on, and the range \<open>[offset, offset + received)\<close> is
  recorded. With 10000 rows buffered and two rows received at offset 10000 the buffer still
  has 10000 rows afterwards, the first received row is at index 9998, and the tracked range is
  \<open>[0, 10000)\<close>.
\<close>

theorem fulfilled_with_eviction_shifts_rows:
  "length (allData example_full) = 10000
   \<and> length (allData (fetchDataRange_fulfilled example_full (Some example_payload))) = 10000
   \<and> allData (fetchDataRange_fulfilled example_full (Some example_payload)) ! 9998
       = [Str ''b1'', Num 5, Num 7]
   \<and> loadedRanges (fetchDataRange_fulfilled example_full (Some example_payload))
       = [\<lparr>start = 0, end' = 10000\<rparr>]"
proof -
  have a: "allData (fetchDataRange_fulfilled example_full (Some example_payload)) =
     replicate 9998 [Str ''old'', Num 1, Num 2] @ res_data example_payload"
    by (simp add: fulfilled_allData example_full_fields MAX_CACHED_ROWS_def example_payload_fields)
  have m: "mergeRanges [\<lparr>start = 0, end' = 10000\<rparr>, \<lparr>start = 10000, end' = 10002\<rparr>]
           = [\<lparr>start = 0, end' = 10002\<rparr>]"
    by (simp add: mergeRanges_def merge_step_def)
  have r: "loadedRanges (fetchDataRange_fulfilled example_full (Some example_payload))
       = [\<lparr>start = 0, end' = 10000\<rparr>]"
    by (simp add: fetchDataRange_fulfilled_def evict_loadedRanges fulfilled_append_allData
        fulfilled_append_loadedRanges example_full_fields example_payload_fields
        MAX_CACHED_ROWS_def m shiftRanges_def)
  have n: "(replicate 9998 [Str ''old'', Num 1, Num 2] @ res_data example_payload) ! 9998
           = res_data example_payload ! 0"
    by (simp add: nth_append)
  show ?thesis
    by (simp add: a r n example_full_fields) (simp add: example_payload_fields)
qed

text \<open>
  C10, amended. After a fulfilled range fetch the buffer is the old buffer followed by the
  received rows, less the rows evicted from the front. When the buffer stays within
  \<open>MAX_CACHED_ROWS\<close> the received rows occupy the indices from the old buffer length on,
  whatever the requested offset, and the tracked ranges are the old ones with
  \<open>[offset, offset + received)\<close> pushed and merged. The buffer index of every received row
  equals its server offset only if nothing was received or the offset is the buffer length.
\<close>

theorem fulfilled_appends_at_tail:
  "allData (fetchDataRange_fulfilled st (Some p)) =
     drop (length (allData st @ res_data p) - MAX_CACHED_ROWS) (allData st @ res_data p)
   \<and> (length (allData st @ res_data p) \<le> MAX_CACHED_ROWS \<longrightarrow>
        allData (fetchDataRange_fulfilled st (Some p)) = allData st @ res_data p
        \<and> (\<forall>j<length (res_data p).
              allData (fetchDataRange_fulfilled st (Some p)) ! (length (allData st) + j)
              = res_data p ! j)
        \<and> loadedRanges (fetchDataRange_fulfilled st (Some p)) =
            mergeRanges (loadedRanges st
              @ [\<lparr>start = pay_offset p, end' = pay_offset p + int (length (res_data p))\<rparr>]))
   \<and> ((\<forall>j<length (res_data p). int (length (allData st) + j) = pay_offset p + int j)
        \<longleftrightarrow> (res_data p = [] \<or> pay_offset p = int (length (allData st))))"
proof (intro conjI impI)
  show "allData (fetchDataRange_fulfilled st (Some p)) =
     drop (length (allData st @ res_data p) - MAX_CACHED_ROWS) (allData st @ res_data p)"
    by (rule fulfilled_allData)
next
  assume le: "length (allData st @ res_data p) \<le> MAX_CACHED_ROWS"
  show a: "allData (fetchDataRange_fulfilled st (Some p)) = allData st @ res_data p"
    by (simp add: fulfilled_within_limit [OF le] fulfilled_append_allData)
  show "\<forall>j<length (res_data p).
      allData (fetchDataRange_fulfilled st (Some p)) ! (length (allData st) + j) = res_data p ! j"
    by (simp add: a)
  show "loadedRanges (fetchDataRange_fulfilled st (Some p)) =
            mergeRanges (loadedRanges st
              @ [\<lparr>start = pay_offset p, end' = pay_offset p + int (length (res_data p))\<rparr>])"
    by (simp add: fulfilled_within_limit [OF le] fulfilled_append_loadedRanges)
next
  show "(\<forall>j<length (res_data p). int (length (allData st) + j) = pay_offset p + int j)
        \<longleftrightarrow> (res_data p = [] \<or> pay_offset p = int (length (allData st)))"
  proof (cases "res_data p")
    case Nil
    then show ?thesis by simp
  next
    case (Cons r rs)
    then show ?thesis by auto
  qed
qed

theorem fulfilled_appends_at_tail_witness:
  "length (allData example_loaded @ res_data example_payload) \<le> MAX_CACHED_ROWS
   \<and> allData (fetchDataRange_fulfilled example_loaded (Some example_payload))
       = allData example_loaded @ res_data example_payload
   \<and> 1 < length (res_data example_payload)
   \<and> allData (fetchDataRange_fulfilled example_loaded (Some example_payload))
        ! (length (allData example_loaded) + 1) = res_data example_payload ! 1"
proof -
  have le: "length (allData example_loaded @ res_data example_payload) \<le> MAX_CACHED_ROWS"
    by (simp add: example_loaded_def fetchInitialData_fulfilled_def refilter_def Let_def
        example_response_def example_payload_fields MAX_CACHED_ROWS_def)
  have j: "1 < length (res_data example_payload)"
    by (simp add: example_payload_fields)
  from fulfilled_appends_at_tail [of example_loaded example_payload] le j show ?thesis
    by blast
qed

section \<open>Windowing\<close>

text \<open>
  C3, as the claim states it: the interval is always clamped within \<open>[0, totalRows]\<close>, with
  \<open>startIndex = endIndex = 0\<close> when \<open>totalRows = 0\<close>. With no rows and a scroll position
  of 4000 pixels (rows of 40 pixels, overscan 10) the start index is 90.
\<close>

theorem window_unclamped_start:
  "useVirtualScroll 0 40 600 10 4000 =
     Some \<lparr>startIndex = 90, endIndex = 0, visibleRows = 15, offsetTop = 3600, totalHeight = 0\<rparr>"
  by (simp add: useVirtualScroll_def)

text \<open>
  C3, amended. For \<open>rowHeight > 0\<close> and \<open>overscan \<ge> 0\<close> the engine returns the two
  formulas; the interval contains every row of \<open>[0, totalRows)\<close> whose pixel span meets the
  viewport; \<open>startIndex\<close> is clamped below at 0 and \<open>endIndex\<close> above at \<open>totalRows\<close>
  (not the other way round), each with exactly \<open>overscan\<close> extra rows where the clamp does
  not cut; with no rows \<open>endIndex\<close> is 0 when the viewport's lower edge is not negative, and
  \<open>startIndex\<close> is 0 exactly when \<open>scrollTop < (overscan + 1) * rowHeight\<close>.
\<close>

theorem window_formula_and_cover:
  assumes rh: "rowHeight > 0" and ov: "overscan \<ge> 0"
  shows "\<exists>w. useVirtualScroll numRows rowHeight containerHeight overscan scrollTop = Some w
    \<and> startIndex w = max 0 (\<lfloor>scrollTop / rowHeight\<rfloor> - overscan)
    \<and> endIndex w = min numRows (\<lceil>(scrollTop + containerHeight) / rowHeight\<rceil> + overscan)
    \<and> (\<forall>i. 0 \<le> i \<and> i < numRows
            \<and> of_int i * rowHeight < scrollTop + containerHeight
            \<and> scrollTop < (of_int i + 1) * rowHeight
          \<longrightarrow> startIndex w \<le> i \<and> i < endIndex w)
    \<and> 0 \<le> startIndex w
    \<and> endIndex w \<le> numRows
    \<and> (overscan \<le> \<lfloor>scrollTop / rowHeight\<rfloor>
          \<longrightarrow> startIndex w = \<lfloor>scrollTop / rowHeight\<rfloor> - overscan)
    \<and> (\<lceil>(scrollTop + containerHeight) / rowHeight\<rceil> + overscan \<le> numRows
          \<longrightarrow> endIndex w = \<lceil>(scrollTop + containerHeight) / rowHeight\<rceil> + overscan)
    \<and> (numRows = 0 \<and> 0 \<le> scrollTop + containerHeight \<longrightarrow> endIndex w = 0)
    \<and> (startIndex w = 0 \<longleftrightarrow> scrollTop < (of_int overscan + 1) * rowHeight)"
proof -
  define w where "w = \<lparr>startIndex = max 0 (\<lfloor>scrollTop / rowHeight\<rfloor> - overscan),
     endIndex = min numRows (\<lceil>(scrollTop + containerHeight) / rowHeight\<rceil> + overscan),
     visibleRows = \<lceil>containerHeight / rowHeight\<rceil>,
     offsetTop = of_int (max 0 (\<lfloor>scrollTop / rowHeight\<rfloor> - overscan)) * rowHeight,
     totalHeight = of_int numRows * rowHeight\<rparr>"
  have eq: "useVirtualScroll numRows rowHeight containerHeight overscan scrollTop = Some w"
    using rh by (simp add: useVirtualScroll_def w_def Let_def)
  have cover: "startIndex w \<le> i \<and> i < endIndex w"
    if i: "0 \<le> i" "i < numRows" "of_int i * rowHeight < scrollTop + containerHeight"
      "scrollTop < (of_int i + 1) * rowHeight" for i
  proof -
    from i(4) rh have "scrollTop / rowHeight < of_int i + 1"
      by (simp add: pos_divide_less_eq)
    then have "\<lfloor>scrollTop / rowHeight\<rfloor> \<le> i"
      by (simp add: floor_le_iff)
    then have lo: "\<lfloor>scrollTop / rowHeight\<rfloor> - overscan \<le> i" using ov by simp
    from i(3) rh have "of_int i < (scrollTop + containerHeight) / rowHeight"
      by (simp add: pos_less_divide_eq)
    then have "i < \<lceil>(scrollTop + containerHeight) / rowHeight\<rceil>"
      by (simp add: less_ceiling_iff)
    then have hi: "i < \<lceil>(scrollTop + containerHeight) / rowHeight\<rceil> + overscan"
      using ov by simp
    from lo hi i(1,2) show ?thesis by (simp add: w_def)
  qed
  have empty: "startIndex w = 0 \<longleftrightarrow> scrollTop < (of_int overscan + 1) * rowHeight"
  proof -
    have "startIndex w = 0 \<longleftrightarrow> \<lfloor>scrollTop / rowHeight\<rfloor> < overscan + 1"
      by (auto simp: w_def max_def)
    also have "\<dots> \<longleftrightarrow> scrollTop / rowHeight < of_int (overscan + 1)"
      by (simp only: floor_less_iff)
    also have "\<dots> \<longleftrightarrow> scrollTop < (of_int overscan + 1) * rowHeight"
      using rh by (simp add: pos_divide_less_eq)
    finally show ?thesis .
  qed
  have ends: "endIndex w = 0" if z: "numRows = 0" "0 \<le> scrollTop + containerHeight"
  proof -
    from z(2) rh have "0 \<le> (scrollTop + containerHeight) / rowHeight" by simp
    then have "0 \<le> \<lceil>(scrollTop + containerHeight) / rowHeight\<rceil>" by simp
    with ov z(1) show ?thesis by (simp add: w_def)
  qed
  have s1: "startIndex w = max 0 (\<lfloor>scrollTop / rowHeight\<rfloor> - overscan)"
    and e1: "endIndex w = min numRows (\<lceil>(scrollTop + containerHeight) / rowHeight\<rceil> + overscan)"
    by (simp_all add: w_def)
  have s2: "0 \<le> startIndex w" and e2: "endIndex w \<le> numRows"
    by (simp_all add: w_def)
  have s3: "overscan \<le> \<lfloor>scrollTop / rowHeight\<rfloor>
          \<longrightarrow> startIndex w = \<lfloor>scrollTop / rowHeight\<rfloor> - overscan"
    and e3: "\<lceil>(scrollTop + containerHeight) / rowHeight\<rceil> + overscan \<le> numRows
          \<longrightarrow> endIndex w = \<lceil>(scrollTop + containerHeight) / rowHeight\<rceil> + overscan"
    by (simp_all add: w_def)
  from eq s1 e1 cover s2 e2 s3 e3 ends empty show ?thesis
    by blast
qed

theorem window_formula_and_cover_witness:
  "(0::real) < 40 \<and> (0::int) \<le> 10
   \<and> (\<exists>w. useVirtualScroll 1000 40 600 10 1000 = Some w
          \<and> startIndex w = 15 \<and> endIndex w = 50)"
proof -
  have h: "(0::real) < 40" "(0::int) \<le> 10" by simp_all
  from window_formula_and_cover [OF h, of 1000 600 1000]
  obtain w where "useVirtualScroll 1000 40 600 10 1000 = Some w"
    and "startIndex w = max 0 (\<lfloor>1000 / 40 :: real\<rfloor> - 10)"
    and "endIndex w = min 1000 (\<lceil>(1000 + 600) / 40 :: real\<rceil> + 10)"
    by blast
  then have "useVirtualScroll 1000 40 600 10 1000 = Some w \<and> startIndex w = 15 \<and> endIndex w = 50"
    by simp
  with h show ?thesis by blast
qed

section \<open>Scroll updates within one animation frame\<close>

lemma handleScroll_ticking:
  "tickingRef h \<Longrightarrow> foldl handleScroll h vs = h"
  by (induction vs) (simp_all add: handleScroll_def)

text \<open>From an idle hook, the frame applies the first update of the burst.\<close>

lemma frame_takes_first_update:
  "hook_scrollTop (animationFrame (foldl handleScroll (idleHook pos) (v # vs))) = v"
  by (simp add: handleScroll_ticking handleScroll_def idleHook_def animationFrame_def
      frameCallback_def)

text \<open>
  C7. The claim: the window computed when the frame fires reflects the most recent scroll
  position of the updates that arrived before it. After the updates 400 and 4000 the frame
  sets \<open>scrollTop\<close> to 400, and the window of 1000 rows ends at row 35, where the window
  of the latest position ends at row 125: the handler schedules a callback holding the first
  position and ignores later updates while \<open>ticking\<close> is set.
\<close>

theorem frame_applies_stale_scroll_position:
  "hook_scrollTop (animationFrame (foldl handleScroll (idleHook 0) [400, 4000])) = 400
   \<and> last [400, 4000 :: real] = 4000
   \<and> map_option endIndex
         (useVirtualScroll 1000 40 600 10
            (hook_scrollTop (animationFrame (foldl handleScroll (idleHook 0) [400, 4000]))))
       = Some 35
   \<and> map_option endIndex (useVirtualScroll 1000 40 600 10 4000) = Some 125"
  by (simp add: handleScroll_def idleHook_def animationFrame_def frameCallback_def
      useVirtualScroll_def)

section \<open>Cancellation scopes\<close>

lemma wf_initialService: "wf_service initialService"
  by (simp add: wf_service_def initialService_def fresh_below_def apart_def)

lemma wf_start_in: "wf_service s \<Longrightarrow> wf_service (fst (start_in sc s))"
  by (cases sc)
    (auto simp: wf_service_def queryRaw_start_def search_start_def abort_def Let_def
      fresh_below_def apart_def list_all_iff split: option.splits)

lemma start_in_aborted:
  "aborted (fst (start_in sc s)) =
     (case controller_of sc s of None \<Rightarrow> aborted s | Some old \<Rightarrow> old # aborted s)"
  by (cases sc)
    (simp_all add: queryRaw_start_def search_start_def abort_def Let_def split: option.splits)

lemma start_in_own:
  "controller_of sc (fst (start_in sc s)) = Some (snd (start_in sc s))"
  "snd (start_in sc s) = nextController s"
  by (cases sc; simp add: queryRaw_start_def search_start_def abort_def Let_def
      split: option.splits)+

lemma start_in_other:
  "sc' \<noteq> sc \<Longrightarrow> controller_of sc' (fst (start_in sc s)) = controller_of sc' s"
  by (cases sc; cases sc')
    (simp_all add: queryRaw_start_def search_start_def abort_def Let_def split: option.splits)

lemma wf_controllers_apart:
  "wf_service s \<Longrightarrow> sc' \<noteq> sc \<Longrightarrow> controller_of sc' s = Some c \<Longrightarrow> controller_of sc s \<noteq> Some c"
  by (cases sc; cases sc') (auto simp: wf_service_def apart_def split: option.splits)

text \<open>
  C9. Starting a request in a scope aborts the controller that scope held, and nothing
  else: the controller of every other scope stays in its variable and is aborted after the
  start exactly if it was before. In particular, after a prefetch and then a foreground
  request have been started, the prefetch settles with the transport's outcome and its
  response is applied to the store: the received rows are appended to the buffer (less the
  rows evicted from the front), the visible data is the projection of that buffer,
  \<open>totalRows\<close> is the response's, and within the cache ceiling the fetched range is pushed
  and merged. Once a newer prefetch has been started it settles as \<open>Request cancelled\<close>
  and only the two flags are lowered.
\<close>

theorem scopes_cancel_independently:
  assumes wf: "wf_service s"
  shows "aborted (fst (start_in sc s)) =
           (case controller_of sc s of None \<Rightarrow> aborted s | Some old \<Rightarrow> old # aborted s)
    \<and> controller_of sc (fst (start_in sc s)) = Some (snd (start_in sc s))
    \<and> snd (start_in sc s) \<notin> set (aborted (fst (start_in sc s)))
    \<and> (\<forall>sc' c. sc' \<noteq> sc \<and> controller_of sc' s = Some c \<longrightarrow>
          controller_of sc' (fst (start_in sc s)) = Some c
          \<and> (c \<in> set (aborted (fst (start_in sc s))) \<longleftrightarrow> c \<in> set (aborted s)))
    \<and> queryRaw_settle (fst (queryRaw_start (fst (queryRaw_start s True)) False))
         (snd (queryRaw_start s True)) outcome = outcome
    \<and> queryRaw_settle
         (fst (queryRaw_start (fst (queryRaw_start (fst (queryRaw_start s True)) False)) True))
         (snd (queryRaw_start s True)) outcome = Inl (Some ''Request cancelled'')
    \<and> fetchDataRange_settled
         (fst (queryRaw_start (fst (queryRaw_start s True)) False))
         st (snd (queryRaw_start s True)) (Inr response) params
       = fetchDataRange_fulfilled st
           (Some (ColumnarQueryResponse.extend response
              \<lparr>pay_offset = offset params,
               pay_isPrefetch =
                 (case isPrefetch params of Some b \<Rightarrow> b | None \<Rightarrow> False)\<rparr>))
    \<and> fetchDataRange_settled
         (fst (queryRaw_start (fst (queryRaw_start (fst (queryRaw_start s True)) False)) True))
         st (snd (queryRaw_start s True)) (Inr response) params
       = fetchDataRange_rejected st (Some ''Request cancelled'')
    \<and> allData (fetchDataRange_settled
            (fst (queryRaw_start (fst (queryRaw_start s True)) False))
            st (snd (queryRaw_start s True)) (Inr response) params)
       = drop (length (allData st @ res_data response) - MAX_CACHED_ROWS)
           (allData st @ res_data response)
    \<and> data (fetchDataRange_settled
            (fst (queryRaw_start (fst (queryRaw_start s True)) False))
            st (snd (queryRaw_start s True)) (Inr response) params)
       = fvisibleData (filterVisibleData (allColumns st)
           (drop (length (allData st @ res_data response) - MAX_CACHED_ROWS)
              (allData st @ res_data response))
           (selectedDimensions st) (selectedMetrics st))
    \<and> totalRows (fetchDataRange_settled
            (fst (queryRaw_start (fst (queryRaw_start s True)) False))
            st (snd (queryRaw_start s True)) (Inr response) params)
       = res_totalRows response
    \<and> (length (allData st @ res_data response) \<le> MAX_CACHED_ROWS \<longrightarrow>
         allData (fetchDataRange_settled
            (fst (queryRaw_start (fst (queryRaw_start s True)) False))
            st (snd (queryRaw_start s True)) (Inr response) params)
           = allData st @ res_data response
         \<and> loadedRanges (fetchDataRange_settled
            (fst (queryRaw_start (fst (queryRaw_start s True)) False))
            st (snd (queryRaw_start s True)) (Inr response) params)
           = mergeRanges (loadedRanges st
               @ [\<lparr>start = offset params,
                   end' = offset params + int (length (res_data response))\<rparr>]))
    \<and> fetchDataRange_settled
         (fst (queryRaw_start (fst (queryRaw_start (fst (queryRaw_start s True)) False)) True))
         st (snd (queryRaw_start s True)) (Inr response) params
       = st\<lparr>isPrefetching := False, isLoading := False\<rparr>"
proof -
  have own_fresh: "snd (start_in sc s) \<notin> set (aborted (fst (start_in sc s)))"
    if "wf_service s" for sc s
    using that
    by (cases sc)
      (auto simp: wf_service_def queryRaw_start_def search_start_def abort_def Let_def
        fresh_below_def list_all_iff split: option.splits)
  have other: "controller_of sc' (fst (start_in sc s)) = Some c
          \<and> (c \<in> set (aborted (fst (start_in sc s))) \<longleftrightarrow> c \<in> set (aborted s))"
    if "sc' \<noteq> sc" "controller_of sc' s = Some c" for sc' c
    using that wf_controllers_apart [OF wf that] start_in_other [of sc' sc s]
      start_in_aborted [of sc s]
    by (auto split: option.splits)
  define s1 where "s1 = fst (start_in Prefetch s)"
  define p where "p = snd (start_in Prefetch s)"
  define s2 where "s2 = fst (start_in Foreground s1)"
  define s3 where "s3 = fst (start_in Prefetch s2)"
  have wf1: "wf_service s1" unfolding s1_def by (rule wf_start_in [OF wf])
  have p1: "controller_of Prefetch s1 = Some p" "p \<notin> set (aborted s1)"
    unfolding s1_def p_def by (rule start_in_own, rule own_fresh [OF wf])
  have "wf_service s1 \<Longrightarrow> Prefetch \<noteq> Foreground \<Longrightarrow> controller_of Prefetch s1 = Some p
        \<Longrightarrow> controller_of Foreground s1 \<noteq> Some p"
    by (rule wf_controllers_apart)
  with wf1 p1 have ap: "controller_of Foreground s1 \<noteq> Some p" by simp
  have p2: "controller_of Prefetch s2 = Some p" "p \<notin> set (aborted s2)"
    using p1 ap start_in_other [of Prefetch Foreground s1] start_in_aborted [of Foreground s1]
    unfolding s2_def by (auto split: option.splits)
  have p3: "p \<in> set (aborted s3)"
    using p2 start_in_aborted [of Prefetch s2] unfolding s3_def by simp
  have a: "queryRaw_settle (fst (queryRaw_start (fst (queryRaw_start s True)) False))
         (snd (queryRaw_start s True)) outcome = outcome" for outcome
    using p2 by (simp add: queryRaw_settle_def s2_def s1_def p_def)
  have b: "queryRaw_settle
         (fst (queryRaw_start (fst (queryRaw_start (fst (queryRaw_start s True)) False)) True))
         (snd (queryRaw_start s True)) outcome = Inl (Some ''Request cancelled'')" for outcome
    using p3 by (simp add: queryRaw_settle_def s3_def s2_def s1_def p_def)
  have c: "fetchDataRange_settled
         (fst (queryRaw_start (fst (queryRaw_start s True)) False))
         st (snd (queryRaw_start s True)) (Inr response) params
       = fetchDataRange_fulfilled st
           (Some (ColumnarQueryResponse.extend response
              \<lparr>pay_offset = offset params,
               pay_isPrefetch =
                 (case isPrefetch params of Some b \<Rightarrow> b | None \<Rightarrow> False)\<rparr>))"
    by (simp add: fetchDataRange_settled_def a)
  have d: "fetchDataRange_settled
         (fst (queryRaw_start (fst (queryRaw_start (fst (queryRaw_start s True)) False)) True))
         st (snd (queryRaw_start s True)) (Inr response) params
       = fetchDataRange_rejected st (Some ''Request cancelled'')"
    by (simp add: fetchDataRange_settled_def b)
  let ?pay = "ColumnarQueryResponse.extend response
              \<lparr>pay_offset = offset params,
               pay_isPrefetch =
                 (case isPrefetch params of Some b \<Rightarrow> b | None \<Rightarrow> False)\<rparr>"
  let ?buf = "allData st @ res_data response"
  have e1: "allData (fetchDataRange_fulfilled st (Some ?pay))
            = drop (length ?buf - MAX_CACHED_ROWS) ?buf"
    by (simp add: fulfilled_allData payload_of_response)
  have e2: "data (fetchDataRange_fulfilled st (Some ?pay))
            = fvisibleData (filterVisibleData (allColumns st)
                (drop (length ?buf - MAX_CACHED_ROWS) ?buf)
                (selectedDimensions st) (selectedMetrics st))"
    using fulfilled_data [of st ?pay] by (simp add: payload_of_response)
  have e3: "totalRows (fetchDataRange_fulfilled st (Some ?pay)) = res_totalRows response"
    by (simp add: fulfilled_totalRows payload_of_response)
  have e4: "allData (fetchDataRange_fulfilled st (Some ?pay)) = ?buf
         \<and> loadedRanges (fetchDataRange_fulfilled st (Some ?pay))
           = mergeRanges (loadedRanges st
               @ [\<lparr>start = offset params,
                   end' = offset params + int (length (res_data response))\<rparr>])"
    if le: "length ?buf \<le> MAX_CACHED_ROWS"
  proof -
    from le have "length (allData st @ res_data ?pay) \<le> MAX_CACHED_ROWS"
      by (simp add: payload_of_response)
    from fulfilled_within_limit [OF this] show ?thesis
      by (simp add: fulfilled_append_allData fulfilled_append_loadedRanges payload_of_response)
  qed
  have e5: "fetchDataRange_rejected st (Some ''Request cancelled'')
            = st\<lparr>isPrefetching := False, isLoading := False\<rparr>"
    by (simp add: fetchDataRange_rejected_def)
  from start_in_aborted [of sc s] start_in_own(1) [of sc s] own_fresh [OF wf, of sc] other
    a [of outcome] b [of outcome] c d e1 e2 e3 e4 e5
  show ?thesis unfolding c d by blast
qed

theorem scopes_cancel_independently_witness:
  "wf_service initialService
   \<and> queryRaw_settle (fst (queryRaw_start (fst (queryRaw_start initialService True)) False))
         0 (Inr example_response) = Inr example_response
   \<and> snd (queryRaw_start initialService True) = 0
   \<and> length (allData example_loaded @ res_data example_response) \<le> MAX_CACHED_ROWS
   \<and> allData (fetchDataRange_settled
         (fst (queryRaw_start (fst (queryRaw_start initialService True)) False))
         example_loaded 0 (Inr example_response)
         \<lparr>offset = 2, limit = None, isPrefetch = Some True\<rparr>)
       = allData example_loaded @ res_data example_response"
proof -
  note t = scopes_cancel_independently [OF wf_initialService, of Prefetch "Inr example_response"
      example_loaded example_response "\<lparr>offset = 2, limit = None, isPrefetch = Some True\<rparr>"]
  have z: "snd (queryRaw_start initialService True) = 0"
    by (simp add: queryRaw_start_def initialService_def abort_def)
  have le: "length (allData example_loaded @ res_data example_response) \<le> MAX_CACHED_ROWS"
    by (simp add: example_loaded_projection example_response_def MAX_CACHED_ROWS_def)
  from t have q: "queryRaw_settle
         (fst (queryRaw_start (fst (queryRaw_start initialService True)) False))
         (snd (queryRaw_start initialService True)) (Inr example_response) = Inr example_response"
    by blast
  from t le have r: "allData (fetchDataRange_settled
         (fst (queryRaw_start (fst (queryRaw_start initialService True)) False))
         example_loaded (snd (queryRaw_start initialService True)) (Inr example_response)
         \<lparr>offset = 2, limit = None, isPrefetch = Some True\<rparr>)
       = allData example_loaded @ res_data example_response"
    by blast
  from q r z wf_initialService le show ?thesis by simp
qed

section \<open>Row groups\<close>

lemma checkPrev_iff:
  "checkPrevSpanningColumnsMatch rows a b c S
   \<longleftrightarrow> (\<forall>c' \<in> set S. c' < c \<longrightarrow> cellOf rows a c' = cellOf rows b c')"
  by (auto simp: checkPrevSpanningColumnsMatch_def list_all_iff)

lemma same_group_refl: "same_group rows S c a a"
  by (simp add: same_group_def)

lemma same_group_trans:
  "same_group rows S c a b \<Longrightarrow> same_group rows S c b d \<Longrightarrow> same_group rows S c a d"
  by (simp add: same_group_def)

lemma fold_upd:
  "fold (\<lambda>r mp. mp((r, c) \<mapsto> x)) [a..<b] m (r', c') =
     (if c' = c \<and> a \<le> r' \<and> r' < b then Some x else m (r', c'))"
  by (induction b) auto

lemma break_iff:
  assumes "g < length rows" and "v = cellOf rows g c"
  shows "((if i < length rows then cellOf rows i c else Null) \<noteq> v
          \<or> \<not> checkPrevSpanningColumnsMatch rows g i c S \<or> i = length rows)
         \<longleftrightarrow> (i = length rows \<or> i < length rows \<and> \<not> same_group rows S c g i
               \<or> length rows < i \<and> (Null \<noteq> v \<or> \<not> checkPrevSpanningColumnsMatch rows g i c S))"
  using assms by (auto simp: same_group_def checkPrev_iff)

lemma groupStep_inv:
  assumes k: "k < length rows" and inv: "group_inv rows S c m0 k st"
  shows "group_inv rows S c m0 (Suc k) (groupStep rows S c (Suc k) st)"
proof -
  obtain g v m where st: "st = (g, v, m)" by (cases st) auto
  from inv k have gk: "g \<le> k" and v: "v = cellOf rows g c"
    and run: "\<And>j. g \<le> j \<Longrightarrow> j \<le> k \<Longrightarrow> same_group rows S c g j"
    and left: "0 < g \<Longrightarrow> \<not> same_group rows S c (g - 1) g"
    and good: "\<And>r. r < g \<Longrightarrow> \<exists>gi. m (r, c) = Some gi \<and> startRow gi \<le> r
                 \<and> r < startRow gi + rowCount gi \<and> maximal_run rows S c gi"
    and frame: "\<And>r c'. c' \<noteq> c \<or> g \<le> r \<Longrightarrow> m (r, c') = m0 (r, c')"
    by (auto simp: group_inv_def st)
  from gk k have gn: "g < length rows" by simp
  let ?brk = "Suc k = length rows \<or> \<not> same_group rows S c g (Suc k)"
  have cond: "((if Suc k < length rows then cellOf rows (Suc k) c else Null) \<noteq> v
          \<or> \<not> checkPrevSpanningColumnsMatch rows g (Suc k) c S \<or> Suc k = length rows)
         \<longleftrightarrow> ?brk"
    using break_iff [OF gn v, of "Suc k" S] k by auto
  show ?thesis
  proof (cases ?brk)
    case True
    define gi where "gi = \<lparr>group_value = v, startRow = g, rowCount = Suc k - g\<rparr>"
    define m' where "m' = fold (\<lambda>r mp. mp((r, c) \<mapsto> gi)) [g..<Suc k] m"
    define v' where "v' = (if Suc k < length rows then cellOf rows (Suc k) c else Null)"
    have step: "groupStep rows S c (Suc k) st = (Suc k, v', m')"
      using True cond by (simp add: groupStep_def st Let_def gi_def m'_def v'_def)
    have m': "m' (r, c') = (if c' = c \<and> g \<le> r \<and> r < Suc k then Some gi else m (r, c'))"
      for r c'
      by (simp add: m'_def fold_upd)
    have mr: "maximal_run rows S c gi"
      unfolding maximal_run_def gi_def using gk k v run left True by auto
    have a: "v' = cellOf rows (Suc k) c" if "Suc k < length rows"
      using that by (simp add: v'_def)
    have b: "\<not> same_group rows S c (Suc k - 1) (Suc k)" if "Suc k < length rows"
    proof
      assume "same_group rows S c (Suc k - 1) (Suc k)"
      with run [of k] gk have "same_group rows S c g (Suc k)"
        by (auto intro: same_group_trans)
      with True that show False by simp
    qed
    have d: "\<exists>x. m' (r, c) = Some x \<and> startRow x \<le> r \<and> r < startRow x + rowCount x
               \<and> maximal_run rows S c x" if "r < Suc k" for r
    proof (cases "r < g")
      case True
      with good [OF True] show ?thesis by (simp add: m')
    next
      case False
      with that mr show ?thesis by (simp add: m' gi_def)
    qed
    have e: "m' (r, c') = m0 (r, c')" if "c' \<noteq> c \<or> Suc k \<le> r" for r c'
      using that gk frame [of c' r] by (auto simp: m')
    show ?thesis
      unfolding step group_inv_def prod.case
      using a b d e same_group_refl [of rows S c "Suc k"] by (auto simp: le_Suc_eq)
  next
    case False
    then have lt: "Suc k < length rows" and sg: "same_group rows S c g (Suc k)"
      using k by auto
    have step: "groupStep rows S c (Suc k) st = (g, v, m)"
      using False cond by (simp add: groupStep_def st Let_def)
    show ?thesis
      unfolding step group_inv_def prod.case
      using gk v run left good frame lt sg by (auto simp: le_Suc_eq)
  qed
qed

lemma groupFold_inv:
  "k \<le> length rows \<Longrightarrow>
   group_inv rows S c m0 k
     (fold (groupStep rows S c) [1..<Suc k] (0, cellOf rows 0 c, m0))"
proof (induction k)
  case 0
  show ?case by (simp add: group_inv_def same_group_refl)
next
  case (Suc k)
  then have "group_inv rows S c m0 k (fold (groupStep rows S c) [1..<Suc k] (0, cellOf rows 0 c, m0))"
    and "k < length rows" by simp_all
  from groupStep_inv [OF this(2) this(1)] show ?case by simp
qed

lemma groupColumn_good:
  assumes "r < length rows"
  shows "\<exists>g. groupColumn rows S c m0 (r, c) = Some g \<and> startRow g \<le> r
            \<and> r < startRow g + rowCount g \<and> maximal_run rows S c g"
proof -
  obtain g v m where f: "fold (groupStep rows S c) [1..<Suc (length rows)] (0, cellOf rows 0 c, m0)
     = (g, v, m)" by (metis prod_cases3)
  have inv: "group_inv rows S c m0 (length rows) (g, v, m)"
    using groupFold_inv [OF le_refl, of rows S c m0] unfolding f .
  have "groupColumn rows S c m0 = m"
    unfolding groupColumn_def f by simp
  with inv assms show ?thesis
    by (simp add: group_inv_def)
qed

lemma groupColumn_frame:
  assumes "c' \<noteq> c \<or> length rows \<le> r"
  shows "groupColumn rows S c m0 (r, c') = m0 (r, c')"
proof -
  obtain g v m where f: "fold (groupStep rows S c) [1..<Suc (length rows)] (0, cellOf rows 0 c, m0)
     = (g, v, m)" by (metis prod_cases3)
  have inv: "group_inv rows S c m0 (length rows) (g, v, m)"
    using groupFold_inv [OF le_refl, of rows S c m0] unfolding f .
  have "groupColumn rows S c m0 = m"
    unfolding groupColumn_def f by simp
  with inv assms show ?thesis
    by (auto simp: group_inv_def)
qed

lemma fold_groupColumn_frame:
  "c' \<notin> set cs \<or> length rows \<le> r \<Longrightarrow> fold (groupColumn rows S) cs m0 (r, c') = m0 (r, c')"
proof (induction cs arbitrary: m0)
  case Nil
  show ?case by simp
next
  case (Cons c cs)
  then have "fold (groupColumn rows S) cs (groupColumn rows S c m0) (r, c')
             = groupColumn rows S c m0 (r, c')" by auto
  also have "\<dots> = m0 (r, c')" using Cons.prems by (auto intro: groupColumn_frame)
  finally show ?case by simp
qed

lemma fold_groupColumn_good:
  "c \<in> set cs \<Longrightarrow> r < length rows \<Longrightarrow>
   \<exists>g. fold (groupColumn rows S) cs m0 (r, c) = Some g \<and> startRow g \<le> r
        \<and> r < startRow g + rowCount g \<and> maximal_run rows S c g"
proof (induction cs arbitrary: m0)
  case Nil
  then show ?case by simp
next
  case (Cons c0 cs)
  show ?case
  proof (cases "c \<in> set cs")
    case True
    from Cons.IH [OF True Cons.prems(2)] show ?thesis by simp
  next
    case False
    with Cons.prems have c0: "c0 = c" by simp
    from False have "fold (groupColumn rows S) cs (groupColumn rows S c m0) (r, c)
                     = groupColumn rows S c m0 (r, c)"
      by (simp add: fold_groupColumn_frame)
    with groupColumn_good [OF Cons.prems(2), of S c m0] show ?thesis
      by (simp add: c0)
  qed
qed

lemma lockStep_inv:
  assumes inv: "lock_inv c k mg0 ms0 stg sts"
  shows "lock_inv c (Suc k) mg0 ms0 (groupStep rows S c (Suc k) stg) (spanStep rows S c (Suc k) sts)"
proof -
  obtain g v mg where stg: "stg = (g, v, mg)" by (cases stg) auto
  obtain g2 v2 ms where sts0: "sts = (g2, v2, ms)" by (cases sts) auto
  from inv have sts: "sts = (g, v, ms)" and gk: "g \<le> k"
    and rel: "\<And>r. ms (r, c) = span_of mg r c"
    and none: "\<And>r. g \<le> r \<Longrightarrow> mg (r, c) = None"
    and frame: "\<And>r c'. c' \<noteq> c \<Longrightarrow> ms (r, c') = ms0 (r, c')"
    by (auto simp: lock_inv_def stg sts0)
  let ?brk = "(if Suc k < length rows then cellOf rows (Suc k) c else Null) \<noteq> v
          \<or> \<not> checkPrevSpanningColumnsMatch rows g (Suc k) c S \<or> Suc k = length rows"
  show ?thesis
  proof (cases ?brk)
    case True
    define gi where "gi = \<lparr>group_value = v, startRow = g, rowCount = Suc k - g\<rparr>"
    define mg' where "mg' = fold (\<lambda>r mp. mp((r, c) \<mapsto> gi)) [g..<Suc k] mg"
    define ms' where "ms' = (if 1 < Suc k - g
        then ms((g, c) \<mapsto> \<lparr>span_rowIndex = g, span_colIndex = c, span_len = Suc k - g\<rparr>)
        else ms)"
    define v' where "v' = (if Suc k < length rows then cellOf rows (Suc k) c else Null)"
    have sg: "groupStep rows S c (Suc k) stg = (Suc k, v', mg')"
      using True by (simp add: groupStep_def stg Let_def gi_def mg'_def v'_def)
    have ss: "spanStep rows S c (Suc k) sts = (Suc k, v', ms')"
      using True by (simp add: spanStep_def sts Let_def ms'_def v'_def)
    have mg': "mg' (r, c') = (if c' = c \<and> g \<le> r \<and> r < Suc k then Some gi else mg (r, c'))"
      for r c'
      by (simp add: mg'_def fold_upd)
    have a: "ms' (r, c) = span_of mg' r c" for r
    proof (cases "g \<le> r \<and> r < Suc k")
      case True
      then have "mg (r, c) = None" by (simp add: none)
      then have "ms (r, c) = None" by (simp add: rel span_of_def)
      with True show ?thesis
        by (auto simp: ms'_def span_of_def mg' gi_def)
    next
      case False
      then have "r \<noteq> g" using gk by auto
      with False rel [of r] show ?thesis
        by (auto simp: ms'_def span_of_def mg')
    qed
    have b: "mg' (r, c) = None" if "Suc k \<le> r" for r
      using that gk none [of r] by (simp add: mg')
    have d: "ms' (r, c') = ms0 (r, c')" if "c' \<noteq> c" for r c'
      using that frame [of c' r] by (simp add: ms'_def)
    show ?thesis
      unfolding sg ss lock_inv_def prod.case using a b d by simp
  next
    case False
    have sg: "groupStep rows S c (Suc k) stg = (g, v, mg)"
      using False by (simp add: groupStep_def stg Let_def)
    have ss: "spanStep rows S c (Suc k) sts = (g, v, ms)"
      using False by (simp add: spanStep_def sts Let_def)
    show ?thesis
      unfolding sg ss lock_inv_def prod.case using gk rel none frame by simp
  qed
qed

lemma lockFold_inv:
  assumes "\<forall>r. mg0 (r, c) = None" and "\<forall>r. ms0 (r, c) = None"
  shows "lock_inv c k mg0 ms0
     (fold (groupStep rows S c) [1..<Suc k] (0, cellOf rows 0 c, mg0))
     (fold (spanStep rows S c) [1..<Suc k] (0, cellOf rows 0 c, ms0))"
proof (induction k)
  case 0
  show ?case using assms by (simp add: lock_inv_def span_of_def)
next
  case (Suc k)
  from lockStep_inv [OF Suc, of rows S] show ?case by simp
qed

lemma spanColumn_rel:
  assumes "\<forall>r. mg0 (r, c) = None" and "\<forall>r. ms0 (r, c) = None"
  shows "spanColumn rows S c ms0 (r, c) = span_of (groupColumn rows S c mg0) r c"
    and "c' \<noteq> c \<Longrightarrow> spanColumn rows S c ms0 (r, c') = ms0 (r, c')"
proof -
  obtain g v mg where fg: "fold (groupStep rows S c) [1..<Suc (length rows)]
     (0, cellOf rows 0 c, mg0) = (g, v, mg)" by (metis prod_cases3)
  obtain g2 v2 ms where fs: "fold (spanStep rows S c) [1..<Suc (length rows)]
     (0, cellOf rows 0 c, ms0) = (g2, v2, ms)" by (metis prod_cases3)
  have inv: "lock_inv c (length rows) mg0 ms0 (g, v, mg) (g2, v2, ms)"
    using lockFold_inv [of mg0 c ms0 "length rows" rows S] assms unfolding fg fs by blast
  have eq: "groupColumn rows S c mg0 = mg" "spanColumn rows S c ms0 = ms"
    unfolding groupColumn_def spanColumn_def fg fs by simp_all
  from inv show "spanColumn rows S c ms0 (r, c) = span_of (groupColumn rows S c mg0) r c"
    by (simp add: eq lock_inv_def)
  from inv show "c' \<noteq> c \<Longrightarrow> spanColumn rows S c ms0 (r, c') = ms0 (r, c')"
    by (simp add: eq lock_inv_def)
qed

lemma fold_spanColumn_rel:
  assumes "distinct cs"
    and "\<forall>c \<in> set cs. \<forall>r. mg0 (r, c) = None"
    and "\<forall>c \<in> set cs. \<forall>r. ms0 (r, c) = None"
  shows "(\<forall>c \<in> set cs. \<forall>r. fold (spanColumn rows S) cs ms0 (r, c)
            = span_of (fold (groupColumn rows S) cs mg0) r c)
       \<and> (\<forall>c r. c \<notin> set cs \<longrightarrow> fold (spanColumn rows S) cs ms0 (r, c) = ms0 (r, c))"
  using assms
proof (induction cs arbitrary: mg0 ms0)
  case Nil
  show ?case by simp
next
  case (Cons c0 cs)
  define mg1 where "mg1 = groupColumn rows S c0 mg0"
  define ms1 where "ms1 = spanColumn rows S c0 ms0"
  have g0: "\<forall>r. mg0 (r, c0) = None" and s0: "\<forall>r. ms0 (r, c0) = None"
    using Cons.prems by simp_all
  have rel0: "ms1 (r, c0) = span_of mg1 r c0" for r
    unfolding ms1_def mg1_def by (rule spanColumn_rel(1) [OF g0 s0])
  have fr0: "ms1 (r, c') = ms0 (r, c')" if "c' \<noteq> c0" for r c'
    unfolding ms1_def by (rule spanColumn_rel(2) [OF g0 s0 that])
  have gfr0: "mg1 (r, c') = mg0 (r, c')" if "c' \<noteq> c0" for r c'
    unfolding mg1_def using that by (simp add: groupColumn_frame)
  from Cons.prems(1) have d: "distinct cs" and c0: "c0 \<notin> set cs" by simp_all
  have p1: "\<forall>c \<in> set cs. \<forall>r. mg1 (r, c) = None"
  proof (intro ballI allI)
    fix c r assume c: "c \<in> set cs"
    with c0 have "c \<noteq> c0" by auto
    with c Cons.prems(2) show "mg1 (r, c) = None" by (simp add: gfr0)
  qed
  have p2: "\<forall>c \<in> set cs. \<forall>r. ms1 (r, c) = None"
  proof (intro ballI allI)
    fix c r assume c: "c \<in> set cs"
    with c0 have "c \<noteq> c0" by auto
    with c Cons.prems(3) show "ms1 (r, c) = None" by (simp add: fr0)
  qed
  note ih = Cons.IH [OF d p1 p2]
  have f1: "fold (spanColumn rows S) (c0 # cs) ms0 = fold (spanColumn rows S) cs ms1"
    and f2: "fold (groupColumn rows S) (c0 # cs) mg0 = fold (groupColumn rows S) cs mg1"
    by (simp_all add: ms1_def mg1_def)
  have at_c0: "fold (spanColumn rows S) cs ms1 (r, c0)
               = span_of (fold (groupColumn rows S) cs mg1) r c0" for r
  proof -
    from ih c0 have "fold (spanColumn rows S) cs ms1 (r, c0) = ms1 (r, c0)" by blast
    moreover have "fold (groupColumn rows S) cs mg1 (r, c0) = mg1 (r, c0)"
      using c0 by (simp add: fold_groupColumn_frame)
    ultimately show ?thesis by (simp add: rel0 span_of_def)
  qed
  show ?case
    unfolding f1 f2 using ih at_c0 fr0 by auto
qed

text \<open>The spanning columns the hook computes are distinct, ascending and dimension columns.\<close>

lemma spanningColIndices_set:
  "distinct (spanningColIndices columnNames dimensionCount)"
  "sorted (spanningColIndices columnNames dimensionCount)"
  "i \<in> set (spanningColIndices columnNames dimensionCount) \<Longrightarrow>
     i < dimensionCount \<and> i < length columnNames"
  by (simp_all add: spanningColIndices_def sorted_wrt_filter)

lemma groupMap_rowsAXY:
  "groupMap rowsAXY [0, 1] (2, 1) = Some \<lparr>group_value = Str ''X'', startRow = 2, rowCount = 1\<rparr>"
  "groupMap rowsAXY [0, 1] (0, 1) = Some \<lparr>group_value = Str ''X'', startRow = 0, rowCount = 1\<rparr>"
  "groupMap rowsAXY [0, 1] (0, 0) = Some \<lparr>group_value = Str ''A'', startRow = 0, rowCount = 2\<rparr>"
  by code_simp+

text \<open>
  C4. For a non-empty buffer and every spanning column \<open>c\<close>, every row has a group entry
  whose run contains the row and is a maximal run of rows agreeing in column \<open>c\<close> and in
  every spanning column left of \<open>c\<close>, so no run crosses a boundary of a column to its
  left; a span entry is recorded exactly at the first row of a run of more than one row,
  with the run's length (the spanning columns are a set, hence distinct); cells of other
  columns have no entry, and an empty buffer or no spanning column gives empty maps.
\<close>

theorem row_groups_are_maximal_runs:
  "(rows = [] \<or> S = [] \<longrightarrow> groupMap rows S = Map.empty \<and> spanMap rows S = Map.empty)
   \<and> (rows \<noteq> [] \<longrightarrow>
        (\<forall>c \<in> set S. \<forall>r < length rows.
           \<exists>g. groupMap rows S (r, c) = Some g \<and> startRow g \<le> r
                \<and> r < startRow g + rowCount g \<and> maximal_run rows S c g))
   \<and> (\<forall>r c. c \<notin> set S \<or> length rows \<le> r \<longrightarrow> groupMap rows S (r, c) = None)
   \<and> (distinct S \<longrightarrow> (\<forall>r c. spanMap rows S (r, c) = span_of (groupMap rows S) r c))"
proof (intro conjI impI)
  assume "rows = [] \<or> S = []"
  then show "groupMap rows S = Map.empty" "spanMap rows S = Map.empty"
    by (auto simp: groupMap_def spanMap_def)
next
  assume ne: "rows \<noteq> []"
  show "\<forall>c \<in> set S. \<forall>r < length rows.
           \<exists>g. groupMap rows S (r, c) = Some g \<and> startRow g \<le> r
                \<and> r < startRow g + rowCount g \<and> maximal_run rows S c g"
  proof (intro ballI allI impI)
    fix c r assume c: "c \<in> set S" and r: "r < length rows"
    then have "groupMap rows S = fold (groupColumn rows S) S Map.empty"
      using ne by (auto simp: groupMap_def)
    with fold_groupColumn_good [OF c r, of S Map.empty]
    show "\<exists>g. groupMap rows S (r, c) = Some g \<and> startRow g \<le> r
                \<and> r < startRow g + rowCount g \<and> maximal_run rows S c g"
      by simp
  qed
next
  show "\<forall>r c. c \<notin> set S \<or> length rows \<le> r \<longrightarrow> groupMap rows S (r, c) = None"
    by (simp add: groupMap_def fold_groupColumn_frame)
next
  assume d: "distinct S"
  show "\<forall>r c. spanMap rows S (r, c) = span_of (groupMap rows S) r c"
  proof (intro allI)
    fix r c
    show "spanMap rows S (r, c) = span_of (groupMap rows S) r c"
    proof (cases "length rows = 0 \<or> length S = 0")
      case True
      then show ?thesis by (simp add: groupMap_def spanMap_def span_of_def)
    next
      case False
      then have eq: "groupMap rows S = fold (groupColumn rows S) S Map.empty"
        "spanMap rows S = fold (spanColumn rows S) S Map.empty"
        by (simp_all add: groupMap_def spanMap_def)
      have rel: "(\<forall>c \<in> set S. \<forall>r. fold (spanColumn rows S) S Map.empty (r, c)
            = span_of (fold (groupColumn rows S) S Map.empty) r c)
       \<and> (\<forall>c r. c \<notin> set S \<longrightarrow> fold (spanColumn rows S) S Map.empty (r, c) = Map.empty (r, c))"
        by (rule fold_spanColumn_rel [OF d]) simp_all
      show ?thesis
      proof (cases "c \<in> set S")
        case True
        with rel show ?thesis unfolding eq by blast
      next
        case False
        with rel have "fold (spanColumn rows S) S Map.empty (r, c) = None" by simp
        moreover from False have "fold (groupColumn rows S) S Map.empty (r, c) = None"
          by (simp add: fold_groupColumn_frame)
        ultimately show ?thesis unfolding eq by (simp add: span_of_def)
      qed
    qed
  qed
qed

theorem row_groups_witness:
  "rowsAXY \<noteq> [] \<and> distinct [0, 1 :: nat]
   \<and> (\<exists>g. groupMap rowsAXY [0, 1] (2, 1) = Some g \<and> startRow g \<le> 2
           \<and> 2 < startRow g + rowCount g \<and> maximal_run rowsAXY [0, 1] 1 g)
   \<and> groupMap rowsAXY [0, 1] (2, 1)
       = Some \<lparr>group_value = Str ''X'', startRow = 2, rowCount = 1\<rparr>
   \<and> spanMap rowsAXY [0, 1] (0, 0)
       = Some \<lparr>span_rowIndex = 0, span_colIndex = 0, span_len = 2\<rparr>
   \<and> groupMap rowsAXY [0, 1] (0, 2) = None
   \<and> spanMap [] [0, 1] = Map.empty"
proof -
  have ne: "rowsAXY \<noteq> []" by (simp add: rowsAXY_def)
  have d: "distinct [0, 1 :: nat]" by simp
  have len: "(2::nat) < length rowsAXY" by (simp add: rowsAXY_def)
  note t = row_groups_are_maximal_runs [of rowsAXY "[0, 1]"]
  from t ne len have a: "\<exists>g. groupMap rowsAXY [0, 1] (2, 1) = Some g \<and> startRow g \<le> 2
           \<and> 2 < startRow g + rowCount g \<and> maximal_run rowsAXY [0, 1] 1 g"
    by simp
  from t d have "spanMap rowsAXY [0, 1] (0, 0) = span_of (groupMap rowsAXY [0, 1]) 0 0"
    by blast
  moreover have "span_of (groupMap rowsAXY [0, 1]) 0 0
       = Some \<lparr>span_rowIndex = 0, span_colIndex = 0, span_len = 2\<rparr>"
    by (simp only: span_of_def groupMap_rowsAXY) simp
  ultimately have b: "spanMap rowsAXY [0, 1] (0, 0)
       = Some \<lparr>span_rowIndex = 0, span_colIndex = 0, span_len = 2\<rparr>"
    by (rule trans)
  have "(2::nat) \<notin> set [0, 1]" by simp
  with t have c: "groupMap rowsAXY [0, 1] (0, 2) = None" by blast
  from row_groups_are_maximal_runs [of "[]" "[0, 1]"]
  have e: "spanMap [] [0, 1] = Map.empty" by blast
  from ne d a b c e groupMap_rowsAXY(1) show ?thesis by blast
qed

section \<open>A gap of one offset between two fetched ranges\<close>

lemma example_gap_payload_fields:
  "res_data example_gap_payload = [[Str ''b1'', Num 5, Num 7], [Str ''b2'', Num 3, Num 4]]"
  "pay_offset example_gap_payload = 3"
  by (simp_all add: example_gap_payload_def example_response_def ColumnarQueryResponse.extend_def)

text \<open>
  C1. The claim: a range is folded into its predecessor exactly when
  \<open>current.start \<le> previous.end\<close>, so that \<open>isLoaded\<close> is true only for intervals covered
  by the union of the added ranges. The code folds when
  \<open>current.start \<le> previous.end + 1\<close>: on the store that has loaded \<open>[0, 2)\<close>, a fulfilled
  fetch of two rows at offset 3 leaves the single range \<open>[0, 5)\<close>, and offset 2, which neither
  fetch covered, is reported loaded.
\<close>

theorem mergeRanges_folds_gap_of_one:
  "mergeRanges [\<lparr>start = 0, end' = 2\<rparr>, \<lparr>start = 3, end' = 5\<rparr>] = [\<lparr>start = 0, end' = 5\<rparr>]
   \<and> \<not> (start \<lparr>start = 3, end' = 5\<rparr> \<le> end' \<lparr>start = 0, end' = 2\<rparr>)
   \<and> loadedRanges example_loaded = [\<lparr>start = 0, end' = 2\<rparr>]
   \<and> loadedRanges (fetchDataRange_fulfilled example_loaded (Some example_gap_payload))
       = [\<lparr>start = 0, end' = 5\<rparr>]
   \<and> isRangeLoaded
         (loadedRanges (fetchDataRange_fulfilled example_loaded (Some example_gap_payload))) 2 1
   \<and> \<not> covered [\<lparr>start = 0, end' = 2\<rparr>, \<lparr>start = 3, end' = 5\<rparr>] 2"
proof -
  have m: "mergeRanges [\<lparr>start = 0, end' = 2\<rparr>, \<lparr>start = 3, end' = 5\<rparr>] = [\<lparr>start = 0, end' = 5\<rparr>]"
    by (simp add: mergeRanges_def merge_step_def)
  have le: "length (allData example_loaded @ res_data example_gap_payload) \<le> MAX_CACHED_ROWS"
    by (simp add: example_loaded_projection example_gap_payload_fields MAX_CACHED_ROWS_def)
  have r: "loadedRanges (fetchDataRange_fulfilled example_loaded (Some example_gap_payload))
       = [\<lparr>start = 0, end' = 5\<rparr>]"
    by (simp add: fulfilled_within_limit [OF le] fulfilled_append_loadedRanges
        example_loaded_ranges example_gap_payload_fields m)
  show ?thesis
    by (simp add: m r example_loaded_ranges isRangeLoaded_def covered_def)
qed

end
